theory Spec2Isabelle
  imports Main "HOL-Library.Multiset"
begin

section \<open>Time values and the local time zone\<close>

text \<open>
  A JavaScript \<open>Date\<close> holds a time value: the milliseconds since the epoch in UTC, or
  NaN for an Invalid Date. Here \<open>None\<close> is NaN. The methods the report model calls on
  dates (\<open>getDate\<close>, \<open>setDate\<close>, \<open>setHours\<close>) work on local time, so the host's time zone
  is a parameter of the model: \<open>z t True\<close> is the offset at the UTC time value \<open>t\<close> and
  \<open>z t False\<close> the offset at the local time value \<open>t\<close> (ECMAScript's
  \<open>LocalTZA(t, isUTC)\<close>).
\<close>

type_synonym time_value = "int option"

type_synonym zone = "int \<Rightarrow> bool \<Rightarrow> int"

definition msPerDay :: int where
  "msPerDay = 86400000"

definition Day :: "int \<Rightarrow> int" where
  "Day t = t div msPerDay"

definition LocalTime :: "zone \<Rightarrow> int \<Rightarrow> int" where
  "LocalTime z t = t + z t True"

definition UTC :: "zone \<Rightarrow> int \<Rightarrow> int" where
  "UTC z t = t - z t False"

definition TimeClip :: "int \<Rightarrow> time_value" where
  "TimeClip t = (if \<bar>t\<bar> > 8640000000000000 then None else Some t)"

text \<open>
  \<open>d.setDate(d.getDate() + k)\<close>. \<open>setDate(dt)\<close> stores
  \<open>TimeClip(UTC(MakeDate(MakeDay(year, month, dt), TimeWithinDay(t))))\<close> for the local
  time \<open>t\<close> of \<open>d\<close>; \<open>MakeDay(year, month, dt)\<close> is the day number of the first of
  that month plus \<open>dt - 1\<close>, and \<open>getDate()\<close> is \<open>Day(t)\<close> minus that day number plus
  1. So the call moves the local time by \<open>k\<close> whole days, also across the ends of a
  month, and converts back to UTC.
\<close>

definition Date_setDate_offset :: "zone \<Rightarrow> int \<Rightarrow> time_value \<Rightarrow> time_value" where
  "Date_setDate_offset z k d =
     (case d of None \<Rightarrow> None
      | Some tv \<Rightarrow> TimeClip (UTC z (LocalTime z tv + k * msPerDay)))"

text \<open>\<open>d.setHours(0, 0, 0, 0)\<close>: local midnight of the local day of \<open>d\<close>.\<close>

definition Date_setHours_zero :: "zone \<Rightarrow> time_value \<Rightarrow> time_value" where
  "Date_setHours_zero z d =
     (case d of None \<Rightarrow> None
      | Some tv \<Rightarrow> TimeClip (UTC z (Day (LocalTime z tv) * msPerDay)))"

text \<open>\<open>a >= b\<close> and \<open>a < b\<close> on two dates: both are false when either is NaN.\<close>

definition js_ge :: "time_value \<Rightarrow> time_value \<Rightarrow> bool" where
  "js_ge a b = (case (a, b) of (Some x, Some y) \<Rightarrow> x \<ge> y | _ \<Rightarrow> False)"

definition js_lt :: "time_value \<Rightarrow> time_value \<Rightarrow> bool" where
  "js_lt a b = (case (a, b) of (Some x, Some y) \<Rightarrow> x < y | _ \<Rightarrow> False)"

text \<open>
  The first lines of both \<open>isFromYesterday\<close> methods, which are the same: \<open>yesterday\<close>
  and \<open>tomorrow\<close>, from the clock reading \<open>now\<close> (\<open>new Date()\<close>). Every call
  reads the clock; a query of the report that calls the method many times gets one
  reading here, that of a query which does not run across a local midnight.
\<close>

definition yesterday_window :: "zone \<Rightarrow> int \<Rightarrow> time_value \<times> time_value" where
  "yesterday_window z now =
     (let yesterday = Date_setHours_zero z (Date_setDate_offset z (- 1) (Some now));
          tomorrow = Date_setDate_offset z 1 yesterday
      in (yesterday, tomorrow))"

subsection \<open>The window in the words of the specification\<close>

text \<open>
  The UTC time value of the local midnight that starts local day \<open>d\<close>, and the local
  day of the clock reading.
\<close>

definition local_midnight :: "zone \<Rightarrow> int \<Rightarrow> int" where
  "local_midnight z d = UTC z (d * msPerDay)"


text \<open>
  A zone is regular when a local time converted to UTC and back stays on its local day,
  every local midnight exists, local midnights follow each other in UTC, and no offset
  exceeds a day.
\<close>

definition zone_regular :: "zone \<Rightarrow> bool" where
  "zone_regular z =
     ((\<forall>l. Day (LocalTime z (UTC z l)) = Day l) \<and>
      (\<forall>d. LocalTime z (local_midnight z d) = d * msPerDay) \<and>
      (\<forall>d. local_midnight z d < local_midnight z (d + 1)) \<and>
      (\<forall>t b. \<bar>z t b\<bar> \<le> msPerDay))"

text \<open>A zone with one fixed offset; \<open>fixed_zone 0\<close> is UTC.\<close>

definition fixed_zone :: "int \<Rightarrow> zone" where
  "fixed_zone off t isUTC = off"


section \<open>Domain entities\<close>

text \<open>
  The constructors store \<open>new Date(date)\<close>; the records hold the time value that
  results, NaN when the argument does not parse. A field name that two classes share
  (\<open>title\<close>, \<open>url\<close>, \<open>date\<close>) carries a prefix here, as do \<open>type\<close> and \<open>state\<close>.
\<close>

record PullRequest =
  pr_title :: string
  pr_url :: string
  pr_author :: string
  pr_date :: time_value
  pr_state :: string

record Activity =
  act_type :: string
  act_title :: string
  act_url :: string
  act_date :: time_value
  repoName :: string

definition PullRequest_isFromYesterday :: "zone \<Rightarrow> int \<Rightarrow> PullRequest \<Rightarrow> bool" where
  "PullRequest_isFromYesterday z now pr =
     (case yesterday_window z now of
        (yesterday, tomorrow) \<Rightarrow> js_ge (pr_date pr) yesterday \<and> js_lt (pr_date pr) tomorrow)"

definition Activity_isFromYesterday :: "zone \<Rightarrow> int \<Rightarrow> Activity \<Rightarrow> bool" where
  "Activity_isFromYesterday z now a =
     (case yesterday_window z now of
        (yesterday, tomorrow) \<Rightarrow> js_ge (act_date a) yesterday \<and> js_lt (act_date a) tomorrow)"

subsection \<open>Activity.getTypeDisplay\<close>

text \<open>
  \<open>typeMap[this.type]\<close> reads a property of an object literal: the literal's own four
  properties first, then the properties it inherits from \<open>Object.prototype\<close>, whose
  values are built-in objects and not strings; any other name gives \<open>undefined\<close>
  (\<open>None\<close>).
\<close>

datatype js_value = Str string | Builtin string

definition typeMap :: "(string \<times> string) list" where
  "typeMap =
     [(''pr_created'', ''Created PR''),
      (''pr_commented'', ''Commented on PR''),
      (''pr_reviewed'', ''Reviewed PR''),
      (''issue_commented'', ''Commented on Issue'')]"

definition Object_prototype_names :: "string list" where
  "Object_prototype_names =
     [''constructor'', ''__defineGetter__'', ''__defineSetter__'', ''hasOwnProperty'',
      ''__lookupGetter__'', ''__lookupSetter__'', ''isPrototypeOf'', ''propertyIsEnumerable'',
      ''toString'', ''valueOf'', ''__proto__'', ''toLocaleString'']"

definition typeMap_get :: "string \<Rightarrow> js_value option" where
  "typeMap_get k =
     (case map_of typeMap k of
        Some label \<Rightarrow> Some (Str label)
      | None \<Rightarrow> if k \<in> set Object_prototype_names then Some (Builtin k) else None)"

fun truthy :: "js_value \<Rightarrow> bool" where
  "truthy (Str s) = (s \<noteq> [])"
| "truthy (Builtin n) = True"

definition getTypeDisplay :: "Activity \<Rightarrow> js_value" where
  "getTypeDisplay a =
     (case typeMap_get (act_type a) of
        Some v \<Rightarrow> if truthy v then v else Str (act_type a)
      | None \<Rightarrow> Str (act_type a))"

section \<open>The store of activity arrays\<close>

text \<open>
  Two arrays of activities are changed in place after other objects can reach them:
  a project's \<open>myActivities\<close> (by \<open>push\<close>) and the local \<open>activities\<close> of
  \<open>getAllYesterdayActivities\<close> (by \<open>push\<close> and \<open>sort\<close>). They live in a store, and
  the objects hold references to them. An array that is built and only read afterwards
  (the result of \<open>filter\<close>) is a list.
\<close>

record store =
  arrays :: "nat \<Rightarrow> Activity list"
  next_ref :: nat

definition new_array :: "Activity list \<Rightarrow> store \<Rightarrow> nat \<times> store" where
  "new_array xs s =
     (next_ref s, s\<lparr>arrays := (arrays s)(next_ref s := xs), next_ref := Suc (next_ref s)\<rparr>)"

definition push :: "nat \<Rightarrow> Activity list \<Rightarrow> store \<Rightarrow> store" where
  "push r xs s = s\<lparr>arrays := (arrays s)(r := arrays s r @ xs)\<rparr>"

text \<open>
  \<open>Array.prototype.sort\<close> with a comparator. A NaN from the comparator counts as 0.
  The sort is stable, so for a consistent comparator its result is the one that
  insertion from the right gives.
\<close>

fun insert_sorted :: "('a \<Rightarrow> 'a \<Rightarrow> int option) \<Rightarrow> 'a \<Rightarrow> 'a list \<Rightarrow> 'a list" where
  "insert_sorted c x [] = [x]"
| "insert_sorted c x (y # ys) =
     (if (case c x y of None \<Rightarrow> 0 | Some v \<Rightarrow> v) \<le> 0 then x # y # ys
      else y # insert_sorted c x ys)"

definition Array_sort :: "('a \<Rightarrow> 'a \<Rightarrow> int option) \<Rightarrow> 'a list \<Rightarrow> 'a list" where
  "Array_sort c xs = foldr (insert_sorted c) xs []"

definition sort_in_place :: "(Activity \<Rightarrow> Activity \<Rightarrow> int option) \<Rightarrow> nat \<Rightarrow> store \<Rightarrow> store" where
  "sort_in_place c r s = s\<lparr>arrays := (arrays s)(r := Array_sort c (arrays s r))\<rparr>"

section \<open>ProjectSummary\<close>

record ProjectSummary =
  name :: string
  description :: string
  url :: string
  language :: "string option"
  lastPR :: "PullRequest option"
  myActivities :: nat

text \<open>The constructor: a falsy description (absent or empty) becomes the placeholder.\<close>

definition new_ProjectSummary ::
  "string \<Rightarrow> string option \<Rightarrow> string \<Rightarrow> string option \<Rightarrow> PullRequest option \<Rightarrow> store
     \<Rightarrow> ProjectSummary \<times> store" where
  "new_ProjectSummary n d u l pr s =
     (case new_array [] s of
        (r, s') \<Rightarrow>
          (\<lparr>name = n,
            description = (case d of None \<Rightarrow> ''No description available''
                           | Some t \<Rightarrow> if t = [] then ''No description available'' else t),
            url = u, language = l, lastPR = pr, myActivities = r\<rparr>, s'))"

definition addActivity :: "ProjectSummary \<Rightarrow> Activity \<Rightarrow> store \<Rightarrow> store" where
  "addActivity p activity s = push (myActivities p) [activity] s"

text \<open>
  \<open>hasYesterdayActivity\<close> returns \<open>true\<close>, \<open>false\<close> or, when \<open>lastPR\<close> is null and no
  activity is from yesterday, the null that \<open>&&\<close> passes on. A method call on null
  throws a TypeError, whose message is the engine's and is read nowhere.
\<close>

datatype js_error = TypeError

datatype js_result = JBool bool | JNull

fun is_true :: "js_result \<Rightarrow> bool" where
  "is_true (JBool b) = b"
| "is_true JNull = False"

definition call_isFromYesterday :: "zone \<Rightarrow> int \<Rightarrow> PullRequest option \<Rightarrow> js_error + bool" where
  "call_isFromYesterday z now ref =
     (case ref of
        None \<Rightarrow> Inl TypeError
      | Some pr \<Rightarrow> Inr (PullRequest_isFromYesterday z now pr))"

definition hasYesterdayActivity :: "zone \<Rightarrow> int \<Rightarrow> store \<Rightarrow> ProjectSummary \<Rightarrow> js_error + js_result" where
  "hasYesterdayActivity z now s p =
     (if list_ex (Activity_isFromYesterday z now) (arrays s (myActivities p)) then Inr (JBool True)
      else if lastPR p = None then Inr JNull
      else (case call_isFromYesterday z now (lastPR p) of
              Inl e \<Rightarrow> Inl e
            | Inr b \<Rightarrow> Inr (JBool b)))"

definition getYesterdayActivities :: "zone \<Rightarrow> int \<Rightarrow> store \<Rightarrow> ProjectSummary \<Rightarrow> Activity list" where
  "getYesterdayActivities z now s p =
     filter (Activity_isFromYesterday z now) (arrays s (myActivities p))"

section \<open>GitHubReport\<close>

text \<open>An entry of an error list: the shape that the logger builds.\<close>

record log_entry =
  log_message :: string
  log_context :: "string option"
  log_timestamp :: string

record GitHubReport =
  username :: string
  generatedAt :: int
  projects :: "ProjectSummary list"
  totalReposAnalyzed :: nat
  errors :: "log_entry list"

definition new_GitHubReport :: "string \<Rightarrow> int \<Rightarrow> GitHubReport" where
  "new_GitHubReport u now =
     \<lparr>username = u, generatedAt = now, projects = [], totalReposAnalyzed = 0, errors = []\<rparr>"

definition addProject :: "ProjectSummary \<Rightarrow> GitHubReport \<Rightarrow> GitHubReport" where
  "addProject project r = r\<lparr>projects := projects r @ [project]\<rparr>"

definition setTotalRepos :: "nat \<Rightarrow> GitHubReport \<Rightarrow> GitHubReport" where
  "setTotalRepos n r = r\<lparr>totalReposAnalyzed := n\<rparr>"

definition addError :: "log_entry \<Rightarrow> GitHubReport \<Rightarrow> GitHubReport" where
  "addError e r = r\<lparr>errors := errors r @ [e]\<rparr>"

text \<open>\<open>Array.prototype.filter\<close> with a callback that may throw: the exception ends the call.\<close>

fun filter_callback :: "('a \<Rightarrow> js_error + js_result) \<Rightarrow> 'a list \<Rightarrow> js_error + 'a list" where
  "filter_callback f [] = Inr []"
| "filter_callback f (x # xs) =
     (case f x of
        Inl e \<Rightarrow> Inl e
      | Inr v \<Rightarrow>
          (case filter_callback f xs of
             Inl e \<Rightarrow> Inl e
           | Inr ys \<Rightarrow> Inr (if is_true v then x # ys else ys)))"

definition getActiveProjects :: "zone \<Rightarrow> int \<Rightarrow> GitHubReport \<Rightarrow> store \<Rightarrow> js_error + ProjectSummary list" where
  "getActiveProjects z now r s = filter_callback (hasYesterdayActivity z now s) (projects r)"

text \<open>The comparator \<open>(a, b) => b.date - a.date\<close>; \<open>None\<close> is NaN.\<close>

definition by_date_descending :: "Activity \<Rightarrow> Activity \<Rightarrow> int option" where
  "by_date_descending a b =
     (case (act_date b, act_date a) of (Some y, Some x) \<Rightarrow> Some (y - x) | _ \<Rightarrow> None)"

text \<open>
  \<open>getAllYesterdayActivities\<close> returns the reference of its array \<open>activities\<close>, which
  it allocates, fills project by project and sorts in place.
\<close>

definition getAllYesterdayActivities :: "zone \<Rightarrow> int \<Rightarrow> GitHubReport \<Rightarrow> store \<Rightarrow> nat \<times> store" where
  "getAllYesterdayActivities z now r s =
     (case new_array [] s of
        (activities, s0) \<Rightarrow>
          (activities,
           sort_in_place by_date_descending activities
             (fold (\<lambda>project st. push activities (getYesterdayActivities z now st project) st)
                (projects r) s0)))"

record ExecutiveSummary =
  totalRepos :: nat
  activeRepos :: nat
  totalActivities :: nat
  createdPRs :: nat
  comments :: nat
  reviews :: nat
  hasErrors :: bool
  errorCount :: nat

definition getExecutiveSummary ::
  "zone \<Rightarrow> int \<Rightarrow> GitHubReport \<Rightarrow> store \<Rightarrow> js_error + ExecutiveSummary \<times> store" where
  "getExecutiveSummary z now r s =
     (case getActiveProjects z now r s of
        Inl e \<Rightarrow> Inl e
      | Inr activeProjects \<Rightarrow>
          (case getAllYesterdayActivities z now r s of
             (ref, s') \<Rightarrow>
               (let yesterdayActivities = arrays s' ref
                in Inr (\<lparr>totalRepos = totalReposAnalyzed r,
                          activeRepos = length activeProjects,
                          totalActivities = length yesterdayActivities,
                          createdPRs = length (filter (\<lambda>a. act_type a = ''pr_created'') yesterdayActivities),
                          comments = length (filter (\<lambda>a. act_type a = ''pr_commented'') yesterdayActivities),
                          reviews = length (filter (\<lambda>a. act_type a = ''pr_reviewed'') yesterdayActivities),
                          hasErrors = (length (errors r) > 0),
                          errorCount = length (errors r)\<rparr>, s'))))"

text \<open>
  The array of every project was allocated: its reference is below the next free one.
  Every store that \<open>generateReport\<close> builds has the property.
\<close>

definition refs_allocated :: "store \<Rightarrow> ProjectSummary list \<Rightarrow> bool" where
  "refs_allocated s ps = (\<forall>p \<in> set ps. myActivities p < next_ref s)"

section \<open>The GitHub service and the logger\<close>

text \<open>
  The records that the REST client returns, with the fields the code reads. A date
  field holds the time value that \<open>new Date\<close> gives for its text. \<open>pull_user\<close> is the
  \<open>login\<close> of the nested object, \<open>None\<close> when the record has no such object.
  \<open>owner\<close> is \<open>Login\<close> with the \<open>login\<close> of the nested object, or \<open>Missing\<close> when the
  record has no such object (null or undefined); \<open>Missing\<close> carries the message of the
  TypeError that the engine throws when the code reads \<open>repo.owner.login\<close>, whose
  wording depends on the engine and is not fixed here.
\<close>

datatype owner_field = Login string | Missing string

record repo =
  repo_name :: string
  full_name :: string
  repo_description :: "string option"
  html_url :: string
  repo_language :: "string option"
  owner :: owner_field

record pull =
  pull_title :: string
  pull_html_url :: string
  pull_user :: "string option"
  pull_updated_at :: time_value
  pull_state :: "string option"

text \<open>
  \<open>logger.error(message, context)\<close> appends an entry to the logger's own list; the
  time stamp is the clock's ISO text at the call.
\<close>

definition logger_error :: "string \<Rightarrow> string option \<Rightarrow> string \<Rightarrow> log_entry list \<Rightarrow> log_entry list" where
  "logger_error message ctx stamp errs =
     errs @ [\<lparr>log_message = message, log_context = ctx, log_timestamp = stamp\<rparr>]"

text \<open>
  \<open>getLastPRForRepo\<close>: \<open>pulls owner repo\<close> is the outcome of the request, \<open>Inl\<close> when it
  is rejected. Every exception inside, also the one of reading \<open>pr.user.login\<close> of a pull
  request without a user, ends in \<open>return null\<close>.
\<close>

definition getLastPRForRepo ::
  "(string \<Rightarrow> string \<Rightarrow> string + pull list) \<Rightarrow> string \<Rightarrow> string \<Rightarrow> PullRequest option" where
  "getLastPRForRepo pulls own rname =
     (case pulls own rname of
        Inl e \<Rightarrow> None
      | Inr [] \<Rightarrow> None
      | Inr (pr # rest) \<Rightarrow>
          (case pull_user pr of
             None \<Rightarrow> None
           | Some login \<Rightarrow>
               Some \<lparr>pr_title = pull_title pr, pr_url = pull_html_url pr, pr_author = login,
                     pr_date = pull_updated_at pr,
                     pr_state = (case pull_state pr of None \<Rightarrow> ''unknown'' | Some st \<Rightarrow> st)\<rparr>))"

text \<open>
  \<open>getRepoDetails\<close> on the logger's list and the store. The progress display has no
  part in either. Inside \<open>try\<close> only the reading of \<open>repo.owner.login\<close> can throw; the
  \<open>catch\<close> branch logs the message and builds a second, minimal project.
\<close>

definition getRepoDetails ::
  "(string \<Rightarrow> string \<Rightarrow> string + pull list) \<Rightarrow> string \<Rightarrow> repo \<Rightarrow> log_entry list \<times> store
     \<Rightarrow> ProjectSummary \<times> log_entry list \<times> store" where
  "getRepoDetails pulls stamp rp st =
     (case st of
        (errs, s) \<Rightarrow>
          (case new_ProjectSummary (repo_name rp) (repo_description rp) (html_url rp)
                  (repo_language rp) None s of
             (project, s1) \<Rightarrow>
               (case owner rp of
                  Missing msg \<Rightarrow>
                    (case new_ProjectSummary (repo_name rp) (repo_description rp) (html_url rp)
                            (repo_language rp) None s1 of
                       (minimal, s2) \<Rightarrow>
                         (minimal,
                          logger_error (''Failed to process repo: '' @ full_name rp) (Some msg) stamp errs,
                          s2))
                | Login login \<Rightarrow>
                    (case getLastPRForRepo pulls login (repo_name rp) of
                       None \<Rightarrow> (project, errs, s1)
                     | Some pr \<Rightarrow> (project\<lparr>lastPR := Some pr\<rparr>, errs, s1)))))"

section \<open>generateReport: ingestion and correlation\<close>

text \<open>
  The state of \<open>generateReport\<close> between the listing of the repositories and the
  rendering: the report, the local array \<open>projects\<close>, the logger's error list and the
  store.
\<close>

record run =
  run_report :: GitHubReport
  run_projects :: "ProjectSummary list"
  run_log :: "log_entry list"
  run_store :: store

text \<open>
  The loop over \<open>repos\<close>. \<open>stamp k\<close> is the clock's ISO text at the \<open>k\<close>-th place where
  the run can log an error: repository \<open>k\<close> of the listing, and after the last
  repository the fetch of the activities.
\<close>

fun process_repos ::
  "(string \<Rightarrow> string \<Rightarrow> string + pull list) \<Rightarrow> (nat \<Rightarrow> string) \<Rightarrow> repo list \<Rightarrow> nat \<Rightarrow> run \<Rightarrow> run" where
  "process_repos pulls stamp [] i st = st"
| "process_repos pulls stamp (rp # rest) i st =
     (case getRepoDetails pulls (stamp i) rp (run_log st, run_store st) of
        (project, errs, s) \<Rightarrow>
          process_repos pulls stamp rest (Suc i)
            (st\<lparr>run_report := addProject project (run_report st),
                run_projects := run_projects st @ [project],
                run_log := errs,
                run_store := s\<rparr>))"

text \<open>\<open>str.split('/')\<close> and \<open>arr.pop()\<close>, which gives \<open>undefined\<close> on an empty array.\<close>

fun split :: "char \<Rightarrow> string \<Rightarrow> string list" where
  "split c [] = [[]]"
| "split c (x # xs) =
     (if x = c then [] # split c xs
      else (case split c xs of [] \<Rightarrow> [[x]] | seg # segs \<Rightarrow> (x # seg) # segs))"

definition pop :: "'a list \<Rightarrow> 'a option" where
  "pop xs = (if xs = [] then None else Some (last xs))"

text \<open>The predicate of \<open>projects.find\<close> and the body of the \<open>forEach\<close> over the activities.\<close>

definition name_matches :: "string \<Rightarrow> Activity \<Rightarrow> bool" where
  "name_matches n activity =
     (n = repoName activity \<or> Some n = pop (split CHR ''/'' (repoName activity)))"

definition map_activity :: "Activity \<Rightarrow> run \<Rightarrow> run" where
  "map_activity activity st =
     (case find (\<lambda>p. name_matches (name p) activity) (run_projects st) of
        None \<Rightarrow> st
      | Some project \<Rightarrow> st\<lparr>run_store := addActivity project activity (run_store st)\<rparr>)"

text \<open>
  \<open>getUserActivity\<close> on the logger's list. \<open>fetched\<close> is the outcome of its \<open>try\<close>
  block: \<open>Inr\<close> with the activities built from the events, or \<open>Inl\<close> with the message of
  an exception thrown inside (a rejected request, an event without a field that is
  read). The \<open>catch\<close> branch logs the message and returns the empty list.
\<close>

definition getUserActivity ::
  "string + Activity list \<Rightarrow> string \<Rightarrow> log_entry list \<Rightarrow> Activity list \<times> log_entry list" where
  "getUserActivity fetched stamp errs =
     (case fetched of
        Inl msg \<Rightarrow> ([], logger_error ''Failed to fetch user activity'' (Some msg) stamp errs)
      | Inr activities \<Rightarrow> (activities, errs))"

text \<open>
  \<open>generateReport\<close> from the creation of the report to the end of the correlation,
  given the list of repositories that the service returned. \<open>ingest\<close> is its first
  part, to the end of the loop over the repositories; then the activities are fetched
  and mapped to the projects.
\<close>

definition ingest ::
  "string \<Rightarrow> int \<Rightarrow> repo list \<Rightarrow> (string \<Rightarrow> string \<Rightarrow> string + pull list) \<Rightarrow> (nat \<Rightarrow> string)
     \<Rightarrow> log_entry list \<Rightarrow> store \<Rightarrow> run" where
  "ingest user now repos pulls stamp errs s =
     process_repos pulls stamp repos 0
       \<lparr>run_report = setTotalRepos (length repos) (new_GitHubReport user now),
        run_projects = [],
        run_log = errs,
        run_store = s\<rparr>"

definition generateReport ::
  "string \<Rightarrow> int \<Rightarrow> repo list \<Rightarrow> (string \<Rightarrow> string \<Rightarrow> string + pull list) \<Rightarrow> (nat \<Rightarrow> string)
     \<Rightarrow> string + Activity list \<Rightarrow> log_entry list \<Rightarrow> store \<Rightarrow> run" where
  "generateReport user now repos pulls stamp fetched errs s =
     (case getUserActivity fetched (stamp (length repos))
             (run_log (ingest user now repos pulls stamp errs s)) of
        (userActivities, errs') \<Rightarrow>
          fold map_activity userActivities
            ((ingest user now repos pulls stamp errs s)\<lparr>run_log := errs'\<rparr>))"

text \<open>
  What holds of the state throughout \<open>generateReport\<close>: the local array and the
  report's array hold the same projects in the same order, no two projects share an
  array, and every array was allocated.
\<close>

definition run_ok :: "run \<Rightarrow> bool" where
  "run_ok st =
     (run_projects st = projects (run_report st) \<and>
      distinct (map myActivities (run_projects st)) \<and>
      refs_allocated (run_store st) (run_projects st))"

section \<open>Rendering of errors\<close>

text \<open>A count in a template literal: the decimal digits.\<close>

fun show_nat :: "nat \<Rightarrow> string" where
  "show_nat n =
     (if n < 10 then [''0123456789'' ! n]
      else show_nat (n div 10) @ [''0123456789'' ! (n mod 10)])"

text \<open>
  The lines that \<open>logger.printSummary\<close> writes to the console, without the colours.
  The check mark is three bytes in UTF-8.
\<close>

definition printSummary :: "log_entry list \<Rightarrow> string list" where
  "printSummary errs =
     [CHR 0x0A # replicate 50 CHR ''='', ''PROCESSING SUMMARY'', replicate 50 CHR ''=''] @
     (if length errs > 0 then
        (CHR 0x0A # show_nat (length errs) @ '' error(s) occurred:'') #
        concat (map (\<lambda>(index, e).
                       (show_nat (index + 1) @ ''. '' @ log_message e) #
                       (case log_context e of
                          None \<Rightarrow> []
                        | Some c \<Rightarrow> if c = [] then [] else [''   Context: '' @ c]))
                  (enumerate 0 errs))
      else [CHR 0x0A # CHR 0xE2 # CHR 0x9C # CHR 0x93 # '' All operations completed successfully!''])"

text \<open>
  What \<open>displayConsoleReport\<close> and \<open>generateMarkdownReport\<close> write about errors, from
  the executive summary.
\<close>

definition console_errors :: "ExecutiveSummary \<Rightarrow> string list" where
  "console_errors summary =
     (if hasErrors summary then [''Errors Encountered: '' @ show_nat (errorCount summary)] else [])"

definition markdown_errors :: "ExecutiveSummary \<Rightarrow> string" where
  "markdown_errors summary =
     (if hasErrors summary then
        ''## Errors Encountered'' @ [CHR 0x0A, CHR 0x0A] @ show_nat (errorCount summary) @
        '' error(s) occurred during report generation. Check the console output for details.'' @
        [CHR 0x0A, CHR 0x0A]
      else [])"

section \<open>Example data\<close>

text \<open>
  A clock reading, 2024-03-11 16:00 UTC, and activities, projects, a report and a store
  for the concrete cases below. In UTC the day before starts at 1710028800000 and ends
  before 1710115200000.
\<close>

definition example_now :: int where
  "example_now = 1710172800000"

definition example_activity :: "string \<Rightarrow> int \<Rightarrow> string \<Rightarrow> Activity" where
  "example_activity ty t rn =
     \<lparr>act_type = ty, act_title = ''Add parser'', act_url = ''https://github.com/o/r/pull/1'',
      act_date = Some t, repoName = rn\<rparr>"

definition example_project :: "string \<Rightarrow> nat \<Rightarrow> ProjectSummary" where
  "example_project n r =
     \<lparr>name = n, description = ''No description available'', url = ''https://github.com/octo-org'',
      language = None, lastPR = None, myActivities = r\<rparr>"

definition example_report :: GitHubReport where
  "example_report =
     \<lparr>username = ''octocat'', generatedAt = example_now,
      projects = [example_project ''octo-repo'' 0, example_project ''hello-world'' 1,
                  example_project ''empty'' 2],
      totalReposAnalyzed = 3, errors = []\<rparr>"

definition example_store :: "Activity list \<Rightarrow> Activity list \<Rightarrow> store" where
  "example_store xs ys =
     \<lparr>arrays = (\<lambda>r. if r = 0 then xs else if r = 1 then ys else []), next_ref = 3\<rparr>"

text \<open>
  A listing of two repositories, the second without an owner, with the message that
  Node 20 gives for the reading of \<open>login\<close>, and three activities: one named with the
  owner, one with the bare name, one of a repository that is not listed.
\<close>

definition example_repo :: "string \<Rightarrow> owner_field \<Rightarrow> repo" where
  "example_repo n own =
     \<lparr>repo_name = n, full_name = ''octo-org/'' @ n, repo_description = None,
      html_url = ''https://github.com/octo-org/'' @ n, repo_language = Some ''JavaScript'',
      owner = own\<rparr>"

definition example_message :: string where
  "example_message =
     ''Cannot read properties of undefined (reading '' @ [CHR 0x27] @ ''login'' @ [CHR 0x27] @ '')''"

definition example_repos :: "repo list" where
  "example_repos =
     [example_repo ''octo-repo'' (Login ''octo-org''),
      example_repo ''hello-world'' (Missing example_message)]"

definition example_activities :: "Activity list" where
  "example_activities =
     [example_activity ''pr_created'' 1710050000000 ''octo-org/octo-repo'',
      example_activity ''pr_reviewed'' 1710060000000 ''octo-repo'',
      example_activity ''pr_commented'' 1710070000000 ''nobody/unknown'']"

definition empty_store :: store where
  "empty_store = \<lparr>arrays = (\<lambda>r. []), next_ref = 0\<rparr>"

definition example_run :: run where
  "example_run =
     generateReport ''octocat'' example_now example_repos (\<lambda>own rname. Inr [])
       (\<lambda>i. ''2024-03-11T16:00:00.000Z'') (Inr example_activities) [] empty_store"

section \<open>The yesterday window\<close>









lemma fixed_zone_regular: "\<bar>off\<bar> \<le> msPerDay \<Longrightarrow> zone_regular (fixed_zone off)"
  by (simp add: zone_regular_def fixed_zone_def LocalTime_def UTC_def local_midnight_def
      algebra_simps msPerDay_def)




section \<open>Type labels\<close>

lemma getTypeDisplay_labels:
  "getTypeDisplay (a\<lparr>act_type := ''pr_created''\<rparr>) = Str ''Created PR''"
  "getTypeDisplay (a\<lparr>act_type := ''pr_commented''\<rparr>) = Str ''Commented on PR''"
  "getTypeDisplay (a\<lparr>act_type := ''pr_reviewed''\<rparr>) = Str ''Reviewed PR''"
  "getTypeDisplay (a\<lparr>act_type := ''issue_commented''\<rparr>) = Str ''Commented on Issue''"
  by (simp_all add: getTypeDisplay_def typeMap_get_def typeMap_def)

lemma getTypeDisplay_other:
  assumes "act_type a \<notin> fst ` set typeMap" and "act_type a \<notin> set Object_prototype_names"
  shows "getTypeDisplay a = Str (act_type a)"
proof -
  have "map_of typeMap (act_type a) = None"
    using assms(1) by (simp add: map_of_eq_None_iff)
  then show ?thesis
    using assms(2) by (simp add: getTypeDisplay_def typeMap_get_def)
qed

text \<open>
  Claim C8 at the type \<open>constructor\<close>: the lookup finds the property that every object
  literal inherits, and \<open>getTypeDisplay\<close> returns that built-in function, not the raw
  string.
\<close>

theorem getTypeDisplay_constructor:
  "getTypeDisplay \<lparr>act_type = ''constructor'', act_title = ''Add parser'',
      act_url = ''https://github.com/o/r/pull/1'', act_date = Some 1710046800000,
      repoName = ''o/r''\<rparr> = Builtin ''constructor'' \<and>
   Builtin ''constructor'' \<noteq> Str ''constructor''"
  by (simp add: getTypeDisplay_def typeMap_get_def typeMap_def Object_prototype_names_def)

section \<open>hasYesterdayActivity\<close>

lemma hasYesterdayActivity_value:
  "hasYesterdayActivity z now s p =
     Inr (if list_ex (Activity_isFromYesterday z now) (arrays s (myActivities p)) then JBool True
          else (case lastPR p of None \<Rightarrow> JNull
                | Some pr \<Rightarrow> JBool (PullRequest_isFromYesterday z now pr)))"
  by (simp add: hasYesterdayActivity_def call_isFromYesterday_def split: option.splits)

text \<open>
  Claim C5. \<open>hasYesterdayActivity\<close> returns \<open>true\<close> iff an owned activity is from
  yesterday, or \<open>lastPR\<close> exists and is from yesterday; so it returns \<open>true\<close> for a project
  without activities whose \<open>lastPR\<close> is from yesterday.
\<close>

theorem hasYesterdayActivity_iff:
  "(hasYesterdayActivity z now s p = Inr (JBool True) \<longleftrightarrow>
      (\<exists>a \<in> set (arrays s (myActivities p)). Activity_isFromYesterday z now a) \<or>
      (\<exists>pr. lastPR p = Some pr \<and> PullRequest_isFromYesterday z now pr)) \<and>
   (arrays s (myActivities p) = [] \<and> lastPR p = Some pr' \<and>
      PullRequest_isFromYesterday z now pr' \<longrightarrow>
      hasYesterdayActivity z now s p = Inr (JBool True))"
  by (auto simp add: hasYesterdayActivity_value list_ex_iff split: option.splits)

theorem hasYesterdayActivity_iff_witness:
  "arrays \<lparr>arrays = (\<lambda>r. []), next_ref = 1\<rparr>
      (myActivities \<lparr>name = ''octo-repo'', description = ''No description available'',
          url = ''https://github.com/octo-org/octo-repo'', language = None,
          lastPR = Some \<lparr>pr_title = ''Add parser'', pr_url = ''https://github.com/o/r/pull/1'',
            pr_author = ''octocat'', pr_date = Some 1710050000000, pr_state = ''open''\<rparr>,
          myActivities = 0\<rparr>) = [] \<and>
   PullRequest_isFromYesterday (fixed_zone 0) 1710172800000
      \<lparr>pr_title = ''Add parser'', pr_url = ''https://github.com/o/r/pull/1'',
        pr_author = ''octocat'', pr_date = Some 1710050000000, pr_state = ''open''\<rparr> \<and>
   hasYesterdayActivity (fixed_zone 0) 1710172800000 \<lparr>arrays = (\<lambda>r. []), next_ref = 1\<rparr>
      \<lparr>name = ''octo-repo'', description = ''No description available'',
        url = ''https://github.com/octo-org/octo-repo'', language = None,
        lastPR = Some \<lparr>pr_title = ''Add parser'', pr_url = ''https://github.com/o/r/pull/1'',
          pr_author = ''octocat'', pr_date = Some 1710050000000, pr_state = ''open''\<rparr>,
        myActivities = 0\<rparr> = Inr (JBool True)"
proof -
  have w: "PullRequest_isFromYesterday (fixed_zone 0) 1710172800000
      \<lparr>pr_title = ''Add parser'', pr_url = ''https://github.com/o/r/pull/1'',
        pr_author = ''octocat'', pr_date = Some 1710050000000, pr_state = ''open''\<rparr>"
    by (simp add: PullRequest_isFromYesterday_def yesterday_window_def Date_setHours_zero_def
        Date_setDate_offset_def TimeClip_def js_ge_def js_lt_def Day_def LocalTime_def UTC_def
        fixed_zone_def msPerDay_def)
  show ?thesis
    using w hasYesterdayActivity_iff [of "fixed_zone 0" 1710172800000
        "\<lparr>arrays = (\<lambda>r. []), next_ref = 1\<rparr>"
        "\<lparr>name = ''octo-repo'', description = ''No description available'',
          url = ''https://github.com/octo-org/octo-repo'', language = None,
          lastPR = Some \<lparr>pr_title = ''Add parser'', pr_url = ''https://github.com/o/r/pull/1'',
            pr_author = ''octocat'', pr_date = Some 1710050000000, pr_state = ''open''\<rparr>,
          myActivities = 0\<rparr>"
        "\<lparr>pr_title = ''Add parser'', pr_url = ''https://github.com/o/r/pull/1'',
          pr_author = ''octocat'', pr_date = Some 1710050000000, pr_state = ''open''\<rparr>"]
    by simp
qed

text \<open>
  Claim C10. When \<open>lastPR\<close> is null, \<open>hasYesterdayActivity\<close> returns a value and throws
  nothing: \<open>true\<close> iff an element of \<open>myActivities\<close> is from yesterday, and otherwise the
  null that the guard \<open>this.lastPR &&\<close> passes on without the method call.
\<close>

theorem hasYesterdayActivity_null_lastPR:
  assumes "lastPR p = None"
  shows "(\<exists>v. hasYesterdayActivity z now s p = Inr v) \<and>
         (hasYesterdayActivity z now s p = Inr (JBool True) \<longleftrightarrow>
            (\<exists>a \<in> set (arrays s (myActivities p)). Activity_isFromYesterday z now a)) \<and>
         (hasYesterdayActivity z now s p = Inr JNull \<longleftrightarrow>
            \<not> (\<exists>a \<in> set (arrays s (myActivities p)). Activity_isFromYesterday z now a))"
  using assms by (auto simp add: hasYesterdayActivity_value list_ex_iff)

theorem hasYesterdayActivity_null_lastPR_witness:
  "lastPR \<lparr>name = ''octo-repo'', description = ''No description available'',
        url = ''https://github.com/octo-org/octo-repo'', language = None, lastPR = None,
        myActivities = 0\<rparr> = None \<and>
   hasYesterdayActivity (fixed_zone 0) 1710172800000
      \<lparr>arrays = (\<lambda>r. [\<lparr>act_type = ''pr_created'', act_title = ''Add parser'',
           act_url = ''https://github.com/o/r/pull/1'', act_date = Some 1710050000000,
           repoName = ''octo-org/octo-repo''\<rparr>]), next_ref = 1\<rparr>
      \<lparr>name = ''octo-repo'', description = ''No description available'',
        url = ''https://github.com/octo-org/octo-repo'', language = None, lastPR = None,
        myActivities = 0\<rparr> = Inr (JBool True) \<and>
   hasYesterdayActivity (fixed_zone 0) 1710172800000 \<lparr>arrays = (\<lambda>r. []), next_ref = 1\<rparr>
      \<lparr>name = ''octo-repo'', description = ''No description available'',
        url = ''https://github.com/octo-org/octo-repo'', language = None, lastPR = None,
        myActivities = 0\<rparr> = Inr JNull"
proof -
  have w: "Activity_isFromYesterday (fixed_zone 0) 1710172800000
      \<lparr>act_type = ''pr_created'', act_title = ''Add parser'',
        act_url = ''https://github.com/o/r/pull/1'', act_date = Some 1710050000000,
        repoName = ''octo-org/octo-repo''\<rparr>"
    by (simp add: Activity_isFromYesterday_def yesterday_window_def Date_setHours_zero_def
        Date_setDate_offset_def TimeClip_def js_ge_def js_lt_def Day_def LocalTime_def UTC_def
        fixed_zone_def msPerDay_def)
  show ?thesis
    using w
      hasYesterdayActivity_null_lastPR [of
        "\<lparr>name = ''octo-repo'', description = ''No description available'',
          url = ''https://github.com/octo-org/octo-repo'', language = None, lastPR = None,
          myActivities = 0\<rparr>" "fixed_zone 0" 1710172800000
        "\<lparr>arrays = (\<lambda>r. [\<lparr>act_type = ''pr_created'', act_title = ''Add parser'',
           act_url = ''https://github.com/o/r/pull/1'', act_date = Some 1710050000000,
           repoName = ''octo-org/octo-repo''\<rparr>]), next_ref = 1\<rparr>"]
      hasYesterdayActivity_null_lastPR [of
        "\<lparr>name = ''octo-repo'', description = ''No description available'',
          url = ''https://github.com/octo-org/octo-repo'', language = None, lastPR = None,
          myActivities = 0\<rparr>" "fixed_zone 0" 1710172800000
        "\<lparr>arrays = (\<lambda>r. []), next_ref = 1\<rparr>"]
    by simp
qed

section \<open>Sorting\<close>

lemma mset_insert_sorted: "mset (insert_sorted c x xs) = add_mset x (mset xs)"
  by (induction xs) auto

lemma mset_Array_sort: "mset (Array_sort c xs) = mset xs"
  by (induction xs) (simp_all add: Array_sort_def mset_insert_sorted)

lemma set_Array_sort: "set (Array_sort c xs) = set xs"
  using mset_Array_sort [of c xs] by (metis set_mset_mset)

lemma length_filter_Array_sort: "length (filter P (Array_sort c xs)) = length (filter P xs)"
proof -
  have "mset (filter P (Array_sort c xs)) = mset (filter P xs)"
    by (simp add: mset_Array_sort)
  then show ?thesis by (metis size_mset)
qed

lemma length_Array_sort: "length (Array_sort c xs) = length xs"
  using length_filter_Array_sort [of "\<lambda>x. True" c xs] by simp

lemma by_date_descending_le:
  "act_date x = Some tx \<Longrightarrow> act_date y = Some ty \<Longrightarrow>
     (case by_date_descending x y of None \<Rightarrow> 0 | Some v \<Rightarrow> v) \<le> 0 \<longleftrightarrow> ty \<le> tx"
  by (simp add: by_date_descending_def)

lemma js_ge_dates:
  "act_date x = Some tx \<Longrightarrow> act_date y = Some ty \<Longrightarrow> js_ge (act_date x) (act_date y) \<longleftrightarrow> ty \<le> tx"
  by (simp add: js_ge_def)

lemma set_insert_sorted: "set (insert_sorted c x xs) = insert x (set xs)"
  using mset_insert_sorted [of c x xs] by (metis set_mset_add_mset_insert set_mset_mset)

lemma sorted_insert_sorted:
  assumes "\<forall>a \<in> set (x # xs). act_date a \<noteq> None"
    and "sorted_wrt (\<lambda>a b. js_ge (act_date a) (act_date b)) xs"
  shows "sorted_wrt (\<lambda>a b. js_ge (act_date a) (act_date b)) (insert_sorted by_date_descending x xs)"
  using assms
proof (induction xs)
  case Nil
  then show ?case by simp
next
  case (Cons y ys)
  obtain tx ty where tx: "act_date x = Some tx" and ty: "act_date y = Some ty"
    using Cons.prems(1) by auto
  show ?case
  proof (cases "ty \<le> tx")
    case True
    have "js_ge (act_date x) (act_date b)" if b: "b \<in> set ys" for b
    proof -
      obtain tb where tb: "act_date b = Some tb"
        using Cons.prems(1) b by (cases "act_date b") auto
      have "js_ge (act_date y) (act_date b)" using Cons.prems(2) b by simp
      then have "tb \<le> ty" using ty tb by (simp add: js_ge_def)
      then show ?thesis using True tx tb by (simp add: js_ge_def)
    qed
    moreover have "insert_sorted by_date_descending x (y # ys) = x # y # ys"
      using True by_date_descending_le [OF tx ty] by simp
    moreover have "js_ge (act_date x) (act_date y)"
      using True tx ty by (simp add: js_ge_def)
    ultimately show ?thesis
      using Cons.prems(2) by auto
  next
    case False
    have ih: "sorted_wrt (\<lambda>a b. js_ge (act_date a) (act_date b)) (insert_sorted by_date_descending x ys)"
      using Cons.IH Cons.prems by simp
    have step: "insert_sorted by_date_descending x (y # ys) = y # insert_sorted by_date_descending x ys"
      using False by_date_descending_le [OF tx ty] by simp
    have "js_ge (act_date y) (act_date x)"
      using False tx ty by (simp add: js_ge_def)
    then show ?thesis
      using Cons.prems(2) ih unfolding step
      by (auto simp add: set_insert_sorted)
  qed
qed

lemma sorted_Array_sort:
  "\<forall>a \<in> set xs. act_date a \<noteq> None \<Longrightarrow>
     sorted_wrt (\<lambda>a b. js_ge (act_date a) (act_date b)) (Array_sort by_date_descending xs)"
proof (induction xs)
  case Nil
  then show ?case by (simp add: Array_sort_def)
next
  case (Cons x xs)
  have "sorted_wrt (\<lambda>a b. js_ge (act_date a) (act_date b))
          (insert_sorted by_date_descending x (Array_sort by_date_descending xs))"
    using Cons by (intro sorted_insert_sorted) (simp_all add: set_Array_sort)
  then show ?case by (simp add: Array_sort_def)
qed

lemma isFromYesterday_valid_date: "Activity_isFromYesterday z now a \<Longrightarrow> act_date a \<noteq> None"
  by (auto simp add: Activity_isFromYesterday_def js_ge_def split: prod.splits option.splits)

section \<open>The report's queries on the store\<close>

lemma getYesterdayActivities_push:
  "myActivities p \<noteq> r \<Longrightarrow>
     getYesterdayActivities z now (push r xs s) p = getYesterdayActivities z now s p"
  by (simp add: getYesterdayActivities_def push_def)

lemma push_push: "push r ys (push r xs s) = push r (xs @ ys) s"
  by (simp add: push_def)

lemma fold_push_projects:
  assumes "\<forall>p \<in> set ps. myActivities p \<noteq> r"
  shows "fold (\<lambda>project st. push r (getYesterdayActivities z now st project) st) ps s =
           push r (concat (map (getYesterdayActivities z now s) ps)) s"
  using assms
proof (induction ps arbitrary: s)
  case Nil
  then show ?case by (simp add: push_def)
next
  case (Cons p ps)
  define s' where "s' = push r (getYesterdayActivities z now s p) s"
  have same: "map (getYesterdayActivities z now s') ps = map (getYesterdayActivities z now s) ps"
    using Cons.prems by (intro map_cong) (simp_all add: getYesterdayActivities_push s'_def)
  have "fold (\<lambda>project st. push r (getYesterdayActivities z now st project) st) (p # ps) s =
        fold (\<lambda>project st. push r (getYesterdayActivities z now st project) st) ps s'"
    by (simp add: s'_def)
  also have "\<dots> = push r (concat (map (getYesterdayActivities z now s') ps)) s'"
    using Cons by simp
  also have "\<dots> = push r (concat (map (getYesterdayActivities z now s) (p # ps))) s"
    by (simp add: same) (simp add: s'_def push_push)
  finally show ?case .
qed

lemma getAllYesterdayActivities_eq:
  assumes "refs_allocated s (projects r)"
  shows "getAllYesterdayActivities z now r s =
           (next_ref s,
            s\<lparr>arrays := (arrays s)(next_ref s :=
                  Array_sort by_date_descending
                    (concat (map (getYesterdayActivities z now s) (projects r)))),
              next_ref := Suc (next_ref s)\<rparr>)"
proof -
  define s0 where "s0 = s\<lparr>arrays := (arrays s)(next_ref s := []), next_ref := Suc (next_ref s)\<rparr>"
  have fresh: "\<forall>p \<in> set (projects r). myActivities p \<noteq> next_ref s"
    using assms by (auto simp add: refs_allocated_def)
  have same: "map (getYesterdayActivities z now s0) (projects r) =
              map (getYesterdayActivities z now s) (projects r)"
    using fresh by (intro map_cong) (simp_all add: getYesterdayActivities_def s0_def)
  have "fold (\<lambda>project st. push (next_ref s) (getYesterdayActivities z now st project) st)
          (projects r) s0 =
        push (next_ref s) (concat (map (getYesterdayActivities z now s) (projects r))) s0"
    using fresh by (simp add: fold_push_projects same)
  then show ?thesis
    by (simp add: getAllYesterdayActivities_def new_array_def s0_def [symmetric])
      (simp add: s0_def push_def sort_in_place_def)
qed


lemma filter_callback_Inr:
  "filter_callback (\<lambda>x. Inr (g x)) xs = Inr (filter (\<lambda>x. is_true (g x)) xs)"
  by (induction xs) simp_all

lemma is_true_iff: "is_true v \<longleftrightarrow> v = JBool True"
  by (cases v) simp_all

lemma getActiveProjects_value:
  "getActiveProjects z now r s =
     Inr (filter (\<lambda>p. hasYesterdayActivity z now s p = Inr (JBool True)) (projects r))"
proof -
  define g :: "ProjectSummary \<Rightarrow> js_result" where "g = (\<lambda>p. if list_ex (Activity_isFromYesterday z now) (arrays s (myActivities p))
      then JBool True
      else (case lastPR p of None \<Rightarrow> JNull
            | Some pr \<Rightarrow> JBool (PullRequest_isFromYesterday z now pr)))"
  have h: "hasYesterdayActivity z now s = (\<lambda>p. Inr (g p))"
    by (rule ext) (simp add: hasYesterdayActivity_value g_def)
  show ?thesis
    by (simp add: getActiveProjects_def h filter_callback_Inr is_true_iff)
qed

lemma hasYesterdayActivity_same_array:
  "arrays s' (myActivities p) = arrays s (myActivities p) \<Longrightarrow>
     hasYesterdayActivity z now s' p = hasYesterdayActivity z now s p"
  by (simp add: hasYesterdayActivity_def)

lemma getYesterdayActivities_same_array:
  "arrays s' (myActivities p) = arrays s (myActivities p) \<Longrightarrow>
     getYesterdayActivities z now s' p = getYesterdayActivities z now s p"
  by (simp add: getYesterdayActivities_def)

lemma getExecutiveSummary_eq:
  assumes "refs_allocated s (projects r)"
  shows "getExecutiveSummary z now r s =
     Inr (\<lparr>totalRepos = totalReposAnalyzed r,
           activeRepos = length (filter (\<lambda>p. hasYesterdayActivity z now s p = Inr (JBool True)) (projects r)),
           totalActivities = length (concat (map (getYesterdayActivities z now s) (projects r))),
           createdPRs = length (filter (\<lambda>a. act_type a = ''pr_created'')
              (concat (map (getYesterdayActivities z now s) (projects r)))),
           comments = length (filter (\<lambda>a. act_type a = ''pr_commented'')
              (concat (map (getYesterdayActivities z now s) (projects r)))),
           reviews = length (filter (\<lambda>a. act_type a = ''pr_reviewed'')
              (concat (map (getYesterdayActivities z now s) (projects r)))),
           hasErrors = (errors r \<noteq> []),
           errorCount = length (errors r)\<rparr>,
          s\<lparr>arrays := (arrays s)(next_ref s :=
                Array_sort by_date_descending
                  (concat (map (getYesterdayActivities z now s) (projects r)))),
            next_ref := Suc (next_ref s)\<rparr>)"
  by (simp add: getExecutiveSummary_def getActiveProjects_value
      getAllYesterdayActivities_eq [OF assms] length_filter_Array_sort length_Array_sort)


lemma example_isFromYesterday:
  "Activity_isFromYesterday (fixed_zone 0) example_now (example_activity ty t rn) \<longleftrightarrow>
     1710028800000 \<le> t \<and> t < 1710115200000"
  by (simp add: Activity_isFromYesterday_def yesterday_window_def Date_setHours_zero_def
      Date_setDate_offset_def TimeClip_def js_ge_def js_lt_def Day_def LocalTime_def UTC_def
      fixed_zone_def msPerDay_def example_now_def example_activity_def)

lemma example_refs_allocated: "refs_allocated (example_store xs ys) (projects example_report)"
  by (simp add: refs_allocated_def example_store_def example_report_def example_project_def)

lemma example_yesterday_activities:
  "concat (map (getYesterdayActivities z now (example_store xs ys)) (projects example_report)) =
     filter (Activity_isFromYesterday z now) xs @ filter (Activity_isFromYesterday z now) ys"
  by (simp add: getYesterdayActivities_def example_store_def example_report_def example_project_def)


text \<open>
  Claim C3. \<open>getAllYesterdayActivities\<close> returns an array that holds the
  yesterday-filtered activities of all projects, each as often as the projects hold it,
  and in which every element's date is at least the date of the element after it.
\<close>

theorem getAllYesterdayActivities_sorted:
  assumes "refs_allocated s (projects r)"
  shows "\<exists>ref s'. getAllYesterdayActivities z now r s = (ref, s') \<and>
           mset (arrays s' ref) =
             mset (concat (map (getYesterdayActivities z now s) (projects r))) \<and>
           (\<forall>i. Suc i < length (arrays s' ref) \<longrightarrow>
                js_ge (act_date (arrays s' ref ! i)) (act_date (arrays s' ref ! Suc i)))"
proof -
  define ys where "ys = concat (map (getYesterdayActivities z now s) (projects r))"
  have "\<forall>a \<in> set ys. act_date a \<noteq> None"
    by (auto simp add: ys_def getYesterdayActivities_def dest: isFromYesterday_valid_date)
  then have "sorted_wrt (\<lambda>a b. js_ge (act_date a) (act_date b)) (Array_sort by_date_descending ys)"
    by (rule sorted_Array_sort)
  then have "\<forall>i. Suc i < length (Array_sort by_date_descending ys) \<longrightarrow>
      js_ge (act_date (Array_sort by_date_descending ys ! i))
        (act_date (Array_sort by_date_descending ys ! Suc i))"
    by (simp add: sorted_wrt_iff_nth_less)
  then show ?thesis
    by (simp add: getAllYesterdayActivities_eq [OF assms] ys_def [symmetric] mset_Array_sort)
qed

theorem getAllYesterdayActivities_sorted_witness:
  "refs_allocated
     (example_store [example_activity ''pr_created'' 1710050000000 ''octo-org/octo-repo'']
        [example_activity ''pr_reviewed'' 1710060000000 ''octo-org/hello-world''])
     (projects example_report) \<and>
   (\<exists>s'. getAllYesterdayActivities (fixed_zone 0) example_now example_report
      (example_store [example_activity ''pr_created'' 1710050000000 ''octo-org/octo-repo'']
        [example_activity ''pr_reviewed'' 1710060000000 ''octo-org/hello-world'']) = (3, s') \<and>
      arrays s' 3 = [example_activity ''pr_reviewed'' 1710060000000 ''octo-org/hello-world'',
                     example_activity ''pr_created'' 1710050000000 ''octo-org/octo-repo''])"
proof -
  have sorted: "Array_sort by_date_descending
      [example_activity ''pr_created'' 1710050000000 ''octo-org/octo-repo'',
       example_activity ''pr_reviewed'' 1710060000000 ''octo-org/hello-world''] =
      [example_activity ''pr_reviewed'' 1710060000000 ''octo-org/hello-world'',
       example_activity ''pr_created'' 1710050000000 ''octo-org/octo-repo'']"
    by (simp add: Array_sort_def by_date_descending_def example_activity_def)
  show ?thesis
    using getAllYesterdayActivities_sorted [where z = "fixed_zone 0" and now = example_now
        and r = example_report
        and s = "example_store [example_activity ''pr_created'' 1710050000000 ''octo-org/octo-repo'']
          [example_activity ''pr_reviewed'' 1710060000000 ''octo-org/hello-world'']",
        OF example_refs_allocated]
    by (simp add: getAllYesterdayActivities_eq [OF example_refs_allocated]
        example_refs_allocated example_yesterday_activities example_isFromYesterday sorted)
      (simp add: example_store_def)
qed


text \<open>
  Claim C6. Two calls of \<open>getExecutiveSummary\<close> in a row, at the same clock reading,
  return the same record: the first call changes no array that the report's projects
  hold, only the array it allocates for its own use.
\<close>

theorem getExecutiveSummary_idempotent:
  assumes "refs_allocated s (projects r)"
  shows "\<exists>summary s1 s2.
           getExecutiveSummary z now r s = Inr (summary, s1) \<and>
           getExecutiveSummary z now r s1 = Inr (summary, s2) \<and>
           (\<forall>p \<in> set (projects r). arrays s1 (myActivities p) = arrays s (myActivities p))"
proof -
  define s1 where "s1 = s\<lparr>arrays := (arrays s)(next_ref s :=
      Array_sort by_date_descending (concat (map (getYesterdayActivities z now s) (projects r)))),
    next_ref := Suc (next_ref s)\<rparr>"
  have same: "arrays s1 (myActivities p) = arrays s (myActivities p)" if "p \<in> set (projects r)" for p
    using assms that by (auto simp add: refs_allocated_def s1_def)
  have alloc1: "refs_allocated s1 (projects r)"
    using assms by (auto simp add: refs_allocated_def s1_def)
  have act: "filter (\<lambda>p. hasYesterdayActivity z now s1 p = Inr (JBool True)) (projects r) =
             filter (\<lambda>p. hasYesterdayActivity z now s p = Inr (JBool True)) (projects r)"
    by (intro filter_cong) (simp_all add: hasYesterdayActivity_same_array [OF same])
  have ya: "map (getYesterdayActivities z now s1) (projects r) =
            map (getYesterdayActivities z now s) (projects r)"
    by (intro map_cong) (simp_all add: getYesterdayActivities_same_array [OF same])
  obtain S where first: "getExecutiveSummary z now r s = Inr (S, s1)"
    by (simp add: getExecutiveSummary_eq [OF assms] s1_def)
  obtain S' s2 where second: "getExecutiveSummary z now r s1 = Inr (S', s2)"
    by (simp add: getExecutiveSummary_eq [OF alloc1])
  have "S' = S"
    using first second
    by (simp add: getExecutiveSummary_eq [OF assms] getExecutiveSummary_eq [OF alloc1] act ya)
  then show ?thesis
    using first second same by blast
qed

theorem getExecutiveSummary_idempotent_witness:
  "refs_allocated
     (example_store [example_activity ''pr_created'' 1710050000000 ''octo-org/octo-repo'']
        [example_activity ''pr_reviewed'' 1710060000000 ''octo-org/hello-world''])
     (projects example_report) \<and>
   (\<exists>s1 s2.
      getExecutiveSummary (fixed_zone 0) example_now example_report
        (example_store [example_activity ''pr_created'' 1710050000000 ''octo-org/octo-repo'']
          [example_activity ''pr_reviewed'' 1710060000000 ''octo-org/hello-world'']) =
        Inr (\<lparr>totalRepos = 3, activeRepos = 2, totalActivities = 2, createdPRs = 1, comments = 0,
              reviews = 1, hasErrors = False, errorCount = 0\<rparr>, s1) \<and>
      getExecutiveSummary (fixed_zone 0) example_now example_report s1 =
        Inr (\<lparr>totalRepos = 3, activeRepos = 2, totalActivities = 2, createdPRs = 1, comments = 0,
              reviews = 1, hasErrors = False, errorCount = 0\<rparr>, s2))"
proof -
  let ?s = "example_store [example_activity ''pr_created'' 1710050000000 ''octo-org/octo-repo'']
          [example_activity ''pr_reviewed'' 1710060000000 ''octo-org/hello-world'']"
  obtain summary s1 s2 where
    c1: "getExecutiveSummary (fixed_zone 0) example_now example_report ?s = Inr (summary, s1)" and
    c2: "getExecutiveSummary (fixed_zone 0) example_now example_report s1 = Inr (summary, s2)"
    using getExecutiveSummary_idempotent [where z = "fixed_zone 0" and now = example_now
        and r = example_report and s = ?s, OF example_refs_allocated]
    by blast
  have active: "filter (\<lambda>p. hasYesterdayActivity (fixed_zone 0) example_now ?s p = Inr (JBool True))
      (projects example_report) = [example_project ''octo-repo'' 0, example_project ''hello-world'' 1]"
    by (simp add: hasYesterdayActivity_value example_report_def example_project_def
        example_store_def example_isFromYesterday)
  have "summary = \<lparr>totalRepos = 3, activeRepos = 2, totalActivities = 2, createdPRs = 1,
      comments = 0, reviews = 1, hasErrors = False, errorCount = 0\<rparr>"
    using c1
    by (simp add: getExecutiveSummary_eq [OF example_refs_allocated] active
        example_yesterday_activities example_isFromYesterday)
      (auto simp add: example_report_def example_activity_def)
  then show ?thesis
    using c1 c2 example_refs_allocated by blast
qed


lemma length_by_type:
  "length xs =
     length (filter (\<lambda>a. act_type a = ''pr_created'') xs) +
     length (filter (\<lambda>a. act_type a = ''pr_commented'') xs) +
     length (filter (\<lambda>a. act_type a = ''pr_reviewed'') xs) +
     length (filter (\<lambda>a. act_type a \<notin> {''pr_created'', ''pr_commented'', ''pr_reviewed''}) xs)"
  by (induction xs) auto

lemma length_filter_pos: "x \<in> set xs \<Longrightarrow> P x \<Longrightarrow> 0 < length (filter P xs)"
  by (induction xs) auto

text \<open>
  Claim C9. In the executive summary, \<open>totalActivities\<close> is the sum of \<open>createdPRs\<close>,
  \<open>comments\<close>, \<open>reviews\<close> and the number of yesterday activities of any other type. An
  activity of type \<open>issue_commented\<close> from yesterday, the type that \<open>getUserActivity\<close>
  gives to a comment on an issue that is no pull request, makes the three counts sum to
  less than the total.
\<close>

theorem getExecutiveSummary_counts:
  assumes "refs_allocated s (projects r)"
  shows "\<exists>summary s'.
           getExecutiveSummary z now r s = Inr (summary, s') \<and>
           totalActivities summary =
             createdPRs summary + comments summary + reviews summary +
             length (filter (\<lambda>a. act_type a \<notin> {''pr_created'', ''pr_commented'', ''pr_reviewed''})
                       (concat (map (getYesterdayActivities z now s) (projects r)))) \<and>
           ((\<exists>a \<in> set (concat (map (getYesterdayActivities z now s) (projects r))).
               act_type a = ''issue_commented'') \<longrightarrow>
            createdPRs summary + comments summary + reviews summary < totalActivities summary)"
proof -
  define ys where "ys = concat (map (getYesterdayActivities z now s) (projects r))"
  have pos: "0 < length (filter (\<lambda>a. act_type a \<notin> {''pr_created'', ''pr_commented'', ''pr_reviewed''}) ys)"
    if "a \<in> set ys" and "act_type a = ''issue_commented''" for a
    using that by (intro length_filter_pos [of a]) simp_all
  show ?thesis
    using length_by_type [of ys] pos
    by (auto simp add: getExecutiveSummary_eq [OF assms] ys_def [symmetric])
qed

theorem getExecutiveSummary_counts_witness:
  "refs_allocated
     (example_store [example_activity ''pr_created'' 1710050000000 ''octo-org/octo-repo'',
          example_activity ''issue_commented'' 1710070000000 ''octo-org/octo-repo'']
        [example_activity ''pr_reviewed'' 1710060000000 ''octo-org/hello-world''])
     (projects example_report) \<and>
   (\<exists>s'. getExecutiveSummary (fixed_zone 0) example_now example_report
        (example_store [example_activity ''pr_created'' 1710050000000 ''octo-org/octo-repo'',
            example_activity ''issue_commented'' 1710070000000 ''octo-org/octo-repo'']
          [example_activity ''pr_reviewed'' 1710060000000 ''octo-org/hello-world'']) =
        Inr (\<lparr>totalRepos = 3, activeRepos = 2, totalActivities = 3, createdPRs = 1, comments = 0,
              reviews = 1, hasErrors = False, errorCount = 0\<rparr>, s'))"
proof -
  let ?s = "example_store [example_activity ''pr_created'' 1710050000000 ''octo-org/octo-repo'',
            example_activity ''issue_commented'' 1710070000000 ''octo-org/octo-repo'']
          [example_activity ''pr_reviewed'' 1710060000000 ''octo-org/hello-world'']"
  obtain summary s' where
    c: "getExecutiveSummary (fixed_zone 0) example_now example_report ?s = Inr (summary, s')"
    using getExecutiveSummary_counts [where z = "fixed_zone 0" and now = example_now
        and r = example_report and s = ?s, OF example_refs_allocated]
    by blast
  have active: "filter (\<lambda>p. hasYesterdayActivity (fixed_zone 0) example_now ?s p = Inr (JBool True))
      (projects example_report) = [example_project ''octo-repo'' 0, example_project ''hello-world'' 1]"
    by (simp add: hasYesterdayActivity_value example_report_def example_project_def
        example_store_def example_isFromYesterday)
  have "summary = \<lparr>totalRepos = 3, activeRepos = 2, totalActivities = 3, createdPRs = 1,
      comments = 0, reviews = 1, hasErrors = False, errorCount = 0\<rparr>"
    using c
    by (simp add: getExecutiveSummary_eq [OF example_refs_allocated] active
        example_yesterday_activities example_isFromYesterday)
      (auto simp add: example_report_def example_activity_def)
  then show ?thesis
    using c example_refs_allocated by blast
qed


section \<open>Ingestion of the repositories\<close>

lemma getRepoDetails_eq:
  "getRepoDetails pulls stamp rp (errs, s) =
     (case owner rp of
        Missing msg \<Rightarrow>
          (\<lparr>name = repo_name rp,
            description = (case repo_description rp of None \<Rightarrow> ''No description available''
                           | Some t \<Rightarrow> if t = [] then ''No description available'' else t),
            url = html_url rp, language = repo_language rp, lastPR = None,
            myActivities = Suc (next_ref s)\<rparr>,
           errs @ [\<lparr>log_message = ''Failed to process repo: '' @ full_name rp,
                    log_context = Some msg, log_timestamp = stamp\<rparr>],
           s\<lparr>arrays := (arrays s)(next_ref s := [], Suc (next_ref s) := []),
             next_ref := Suc (Suc (next_ref s))\<rparr>)
      | Login login \<Rightarrow>
          (\<lparr>name = repo_name rp,
            description = (case repo_description rp of None \<Rightarrow> ''No description available''
                           | Some t \<Rightarrow> if t = [] then ''No description available'' else t),
            url = html_url rp, language = repo_language rp,
            lastPR = getLastPRForRepo pulls login (repo_name rp),
            myActivities = next_ref s\<rparr>,
           errs,
           s\<lparr>arrays := (arrays s)(next_ref s := []), next_ref := Suc (next_ref s)\<rparr>))"
  by (simp add: getRepoDetails_def new_ProjectSummary_def new_array_def logger_error_def
      split: option.splits owner_field.splits)

lemma getRepoDetails_store:
  assumes "getRepoDetails pulls stamp rp (errs, s) = (p, errs', s')"
  shows "next_ref s \<le> myActivities p" and "myActivities p < next_ref s'"
    and "arrays s' (myActivities p) = []"
    and "\<And>r. r < next_ref s \<Longrightarrow> arrays s' r = arrays s r"
  using assms by (auto simp add: getRepoDetails_eq split: owner_field.splits)

lemma process_repos_step:
  "process_repos pulls stamp (rp # rest) i st =
     process_repos pulls stamp rest (Suc i)
       (st\<lparr>run_report := addProject (fst (getRepoDetails pulls (stamp i) rp (run_log st, run_store st)))
                          (run_report st),
           run_projects := run_projects st @
              [fst (getRepoDetails pulls (stamp i) rp (run_log st, run_store st))],
           run_log := fst (snd (getRepoDetails pulls (stamp i) rp (run_log st, run_store st))),
           run_store := snd (snd (getRepoDetails pulls (stamp i) rp (run_log st, run_store st)))\<rparr>)"
  by (simp split: prod.splits)

lemma process_repos_ok:
  assumes "run_ok st"
    and "\<forall>p \<in> set (run_projects st). arrays (run_store st) (myActivities p) = []"
  shows "run_ok (process_repos pulls stamp repos i st) \<and>
         (\<forall>p \<in> set (run_projects (process_repos pulls stamp repos i st)).
            arrays (run_store (process_repos pulls stamp repos i st)) (myActivities p) = [])"
  using assms
proof (induction repos arbitrary: i st)
  case Nil
  then show ?case by simp
next
  case (Cons rp rest)
  obtain p errs' s' where d: "getRepoDetails pulls (stamp i) rp (run_log st, run_store st) = (p, errs', s')"
    by (cases "getRepoDetails pulls (stamp i) rp (run_log st, run_store st)") auto
  note facts = getRepoDetails_store [OF d]
  define st' where "st' = st\<lparr>run_report := addProject p (run_report st),
      run_projects := run_projects st @ [p], run_log := errs', run_store := s'\<rparr>"
  have old: "myActivities q < next_ref (run_store st)" if "q \<in> set (run_projects st)" for q
    using Cons.prems(1) that by (simp add: run_ok_def refs_allocated_def)
  have ok: "run_ok st'"
    using Cons.prems(1) facts(1,2) old
    by (fastforce simp add: run_ok_def refs_allocated_def st'_def addProject_def)
  have empty: "\<forall>q \<in> set (run_projects st'). arrays (run_store st') (myActivities q) = []"
    using Cons.prems(2) facts(3,4) old by (auto simp add: st'_def)
  have "process_repos pulls stamp (rp # rest) i st = process_repos pulls stamp rest (Suc i) st'"
    by (simp add: d st'_def)
  then show ?case
    using Cons.IH [OF ok empty] by simp
qed

lemma process_repos_names:
  "map name (run_projects (process_repos pulls stamp repos i st)) =
     map name (run_projects st) @ map repo_name repos"
  by (induction repos arbitrary: i st)
    (simp_all add: process_repos_step getRepoDetails_eq split: owner_field.splits del: process_repos.simps(2))

lemma process_repos_lastPR:
  "map lastPR (run_projects (process_repos pulls stamp repos i st)) =
     map lastPR (run_projects st) @
     map (\<lambda>rp. case owner rp of Missing msg \<Rightarrow> None
               | Login login \<Rightarrow> getLastPRForRepo pulls login (repo_name rp)) repos"
  by (induction repos arbitrary: i st)
    (simp_all add: process_repos_step getRepoDetails_eq split: owner_field.splits del: process_repos.simps(2))

lemma process_repos_description:
  "map description (run_projects (process_repos pulls stamp repos i st)) =
     map description (run_projects st) @
     map (\<lambda>rp. case repo_description rp of None \<Rightarrow> ''No description available''
               | Some t \<Rightarrow> if t = [] then ''No description available'' else t) repos"
  by (induction repos arbitrary: i st)
    (simp_all add: process_repos_step getRepoDetails_eq split: owner_field.splits del: process_repos.simps(2))

lemma process_repos_url:
  "map url (run_projects (process_repos pulls stamp repos i st)) =
     map url (run_projects st) @ map html_url repos"
  by (induction repos arbitrary: i st)
    (simp_all add: process_repos_step getRepoDetails_eq split: owner_field.splits del: process_repos.simps(2))

lemma process_repos_language:
  "map language (run_projects (process_repos pulls stamp repos i st)) =
     map language (run_projects st) @ map repo_language repos"
  by (induction repos arbitrary: i st)
    (simp_all add: process_repos_step getRepoDetails_eq split: owner_field.splits del: process_repos.simps(2))

lemma process_repos_log:
  "run_log (process_repos pulls stamp repos i st) =
     run_log st @
     concat (map (\<lambda>(k, rp). case owner rp of
                     Missing msg \<Rightarrow>
                       [\<lparr>log_message = ''Failed to process repo: '' @ full_name rp,
                         log_context = Some msg, log_timestamp = stamp k\<rparr>]
                   | Login login \<Rightarrow> [])
               (enumerate i repos))"
  by (induction repos arbitrary: i st)
    (simp_all add: process_repos_step getRepoDetails_eq split: owner_field.splits del: process_repos.simps(2))

lemma process_repos_report:
  "totalReposAnalyzed (run_report (process_repos pulls stamp repos i st)) =
     totalReposAnalyzed (run_report st) \<and>
   errors (run_report (process_repos pulls stamp repos i st)) = errors (run_report st) \<and>
   username (run_report (process_repos pulls stamp repos i st)) = username (run_report st)"
  by (induction repos arbitrary: i st)
    (simp_all add: process_repos_step addProject_def del: process_repos.simps(2))

section \<open>Correlation of activities and projects\<close>

lemma split_no_separator: "c \<notin> set xs \<Longrightarrow> split c xs = [xs]"
  by (induction xs) auto

lemma split_nonempty: "split c xs \<noteq> []"
  by (induction xs) (auto split: list.splits)

lemma length_split: "length (split c xs) = Suc (length (filter (\<lambda>x. x = c) xs))"
  by (induction xs) (auto simp add: split_nonempty split: list.splits)

lemma last_split: "last (split c xs) = rev (takeWhile (\<lambda>x. x \<noteq> c) (rev xs))"
proof (induction xs)
  case Nil
  then show ?case by simp
next
  case (Cons x xs)
  show ?case
  proof (cases "c \<in> set xs")
    case True
    then have tw: "takeWhile (\<lambda>x. x \<noteq> c) (rev xs @ [x]) = takeWhile (\<lambda>x. x \<noteq> c) (rev xs)"
      by (intro takeWhile_append1 [of c]) simp_all
    obtain seg segs where sp: "split c xs = seg # segs"
      using split_nonempty [of c xs] by (cases "split c xs") auto
    have "filter (\<lambda>x. x = c) xs \<noteq> []"
      using True by (simp add: filter_empty_conv)
    then have "length (split c xs) \<ge> 2"
      by (cases "filter (\<lambda>x. x = c) xs") (simp_all add: length_split)
    then have "segs \<noteq> []"
      using sp by auto
    then show ?thesis
      using Cons.IH sp tw by auto
  next
    case False
    then have tw: "takeWhile (\<lambda>x. x \<noteq> c) (rev xs @ [y]) = rev xs @ takeWhile (\<lambda>x. x \<noteq> c) [y]" for y
      by (intro takeWhile_append2) auto
    show ?thesis
      using False by (cases "x = c") (simp_all add: split_no_separator tw)
  qed
qed

lemma pop_split: "pop (split c xs) = Some (rev (takeWhile (\<lambda>x. x \<noteq> c) (rev xs)))"
  by (simp add: pop_def split_nonempty last_split)

lemma map_activity_unmatched:
  "\<forall>p \<in> set (run_projects st). \<not> name_matches (name p) a \<Longrightarrow> map_activity a st = st"
  by (simp add: map_activity_def find_None_iff [THEN iffD2])

lemma map_activity_same:
  "run_projects (map_activity a st) = run_projects st \<and>
   run_report (map_activity a st) = run_report st \<and>
   run_log (map_activity a st) = run_log st \<and>
   next_ref (run_store (map_activity a st)) = next_ref (run_store st)"
  by (simp add: map_activity_def addActivity_def push_def split: option.splits)

lemma fold_map_activity_same:
  "run_projects (fold map_activity acts st) = run_projects st \<and>
   run_report (fold map_activity acts st) = run_report st \<and>
   run_log (fold map_activity acts st) = run_log st \<and>
   next_ref (run_store (fold map_activity acts st)) = next_ref (run_store st)"
  by (induction acts arbitrary: st) (simp_all add: map_activity_same)

lemma map_activity_arrays:
  assumes "distinct (map myActivities (run_projects st))" and "k < length (run_projects st)"
  shows "arrays (run_store (map_activity a st)) (myActivities (run_projects st ! k)) =
           arrays (run_store st) (myActivities (run_projects st ! k)) @
           (if name_matches (name (run_projects st ! k)) a \<and>
               (\<forall>j<k. \<not> name_matches (name (run_projects st ! j)) a)
            then [a] else [])"
proof (cases "find (\<lambda>p. name_matches (name p) a) (run_projects st)")
  case None
  then have "\<not> name_matches (name (run_projects st ! k)) a"
    using assms(2) by (auto simp add: find_None_iff)
  then show ?thesis
    using None by (simp add: map_activity_def)
next
  case (Some p)
  then obtain i where i: "i < length (run_projects st)" "p = run_projects st ! i"
    "name_matches (name (run_projects st ! i)) a"
    "\<forall>j<i. \<not> name_matches (name (run_projects st ! j)) a"
    by (auto simp add: find_Some_iff)
  have ref: "myActivities (run_projects st ! k) = myActivities (run_projects st ! i) \<longleftrightarrow> k = i"
    using assms i(1) by (simp add: nth_eq_iff_index_eq [of "map myActivities (run_projects st)", symmetric])
  have first: "(name_matches (name (run_projects st ! k)) a \<and>
      (\<forall>j<k. \<not> name_matches (name (run_projects st ! j)) a)) \<longleftrightarrow> k = i"
    using i(3,4) by (metis linorder_neqE_nat)
  show ?thesis
    using Some i(2) ref first
    by (simp add: map_activity_def addActivity_def push_def)
qed

lemma fold_map_activity_arrays:
  assumes "distinct (map myActivities (run_projects st))" and "k < length (run_projects st)"
  shows "arrays (run_store (fold map_activity acts st)) (myActivities (run_projects st ! k)) =
           arrays (run_store st) (myActivities (run_projects st ! k)) @
           filter (\<lambda>a. name_matches (name (run_projects st ! k)) a \<and>
                        (\<forall>j<k. \<not> name_matches (name (run_projects st ! j)) a)) acts"
  using assms
proof (induction acts arbitrary: st)
  case Nil
  then show ?case by simp
next
  case (Cons a acts)
  have same: "run_projects (map_activity a st) = run_projects st"
    by (simp add: map_activity_same)
  have "arrays (run_store (fold map_activity acts (map_activity a st)))
          (myActivities (run_projects st ! k)) =
        arrays (run_store (map_activity a st)) (myActivities (run_projects st ! k)) @
        filter (\<lambda>a. name_matches (name (run_projects st ! k)) a \<and>
                     (\<forall>j<k. \<not> name_matches (name (run_projects st ! j)) a)) acts"
    using Cons.IH [of "map_activity a st"] Cons.prems by (simp add: same)
  then show ?case
    using map_activity_arrays [OF Cons.prems, of a] by simp
qed

lemma generateReport_Inr:
  "generateReport user now repos pulls stamp (Inr acts) errs s =
     fold map_activity acts (ingest user now repos pulls stamp errs s)"
  by (simp add: generateReport_def getUserActivity_def)

lemma generateReport_Inl:
  "generateReport user now repos pulls stamp (Inl msg) errs s =
     (ingest user now repos pulls stamp errs s)
       \<lparr>run_log := run_log (ingest user now repos pulls stamp errs s) @
          [\<lparr>log_message = ''Failed to fetch user activity'', log_context = Some msg,
            log_timestamp = stamp (length repos)\<rparr>]\<rparr>"
  by (simp add: generateReport_def getUserActivity_def logger_error_def)

lemma generateReport_same:
  "run_projects (generateReport user now repos pulls stamp fetched errs s) =
     run_projects (ingest user now repos pulls stamp errs s) \<and>
   run_report (generateReport user now repos pulls stamp fetched errs s) =
     run_report (ingest user now repos pulls stamp errs s) \<and>
   next_ref (run_store (generateReport user now repos pulls stamp fetched errs s)) =
     next_ref (run_store (ingest user now repos pulls stamp errs s))"
  by (cases fetched) (simp_all add: generateReport_Inr generateReport_Inl fold_map_activity_same)

lemma ingest_ok:
  "run_ok (ingest user now repos pulls stamp errs s) \<and>
   (\<forall>p \<in> set (run_projects (ingest user now repos pulls stamp errs s)).
      arrays (run_store (ingest user now repos pulls stamp errs s)) (myActivities p) = [])"
  unfolding ingest_def
  by (rule process_repos_ok)
    (simp_all add: run_ok_def refs_allocated_def setTotalRepos_def new_GitHubReport_def)

lemma ingest_names:
  "map name (run_projects (ingest user now repos pulls stamp errs s)) = map repo_name repos"
  by (simp add: ingest_def process_repos_names)

lemma generateReport_ok: "run_ok (generateReport user now repos pulls stamp fetched errs s)"
  using ingest_ok [of user now repos pulls stamp errs s]
  by (auto simp add: run_ok_def refs_allocated_def generateReport_same)

lemma generateReport_projects:
  "projects (run_report (generateReport user now repos pulls stamp fetched errs s)) =
     run_projects (ingest user now repos pulls stamp errs s)"
  using ingest_ok [of user now repos pulls stamp errs s]
  by (simp add: run_ok_def generateReport_same)

lemma generateReport_names:
  "map name (projects (run_report (generateReport user now repos pulls stamp fetched errs s))) =
     map repo_name repos"
  by (simp add: generateReport_projects ingest_names)

lemma generateReport_arrays:
  assumes "i < length repos"
  shows "arrays (run_store (generateReport user now repos pulls stamp (Inr acts) errs s))
           (myActivities (projects (run_report (generateReport user now repos pulls stamp (Inr acts) errs s)) ! i)) =
         filter (\<lambda>a. name_matches (repo_name (repos ! i)) a \<and>
                      (\<forall>j<i. \<not> name_matches (repo_name (repos ! j)) a)) acts"
proof -
  define st0 where "st0 = ingest user now repos pulls stamp errs s"
  have ok: "run_ok st0" and empty: "\<forall>p \<in> set (run_projects st0). arrays (run_store st0) (myActivities p) = []"
    using ingest_ok [of user now repos pulls stamp errs s] by (simp_all add: st0_def)
  have names: "map name (run_projects st0) = map repo_name repos"
    by (simp add: st0_def ingest_names)
  then have len: "length (run_projects st0) = length repos"
    by (metis length_map)
  have nm: "name (run_projects st0 ! j) = repo_name (repos ! j)" if "j < length repos" for j
    using names that len by (metis nth_map)
  have "arrays (run_store (fold map_activity acts st0)) (myActivities (run_projects st0 ! i)) =
          arrays (run_store st0) (myActivities (run_projects st0 ! i)) @
          filter (\<lambda>a. name_matches (name (run_projects st0 ! i)) a \<and>
                       (\<forall>j<i. \<not> name_matches (name (run_projects st0 ! j)) a)) acts"
    using ok assms len by (intro fold_map_activity_arrays) (auto simp add: run_ok_def)
  moreover have "arrays (run_store st0) (myActivities (run_projects st0 ! i)) = []"
    using empty assms len by simp
  moreover have "filter (\<lambda>a. name_matches (name (run_projects st0 ! i)) a \<and>
                       (\<forall>j<i. \<not> name_matches (name (run_projects st0 ! j)) a)) acts =
                 filter (\<lambda>a. name_matches (repo_name (repos ! i)) a \<and>
                       (\<forall>j<i. \<not> name_matches (repo_name (repos ! j)) a)) acts"
    using assms by (intro filter_cong refl) (auto simp add: nm)
  ultimately show ?thesis
    by (simp add: generateReport_projects st0_def [symmetric])
      (simp add: generateReport_Inr st0_def [symmetric])
qed

lemma generateReport_drop:
  assumes "\<forall>rp \<in> set repos. \<not> name_matches (repo_name rp) a"
  shows "generateReport user now repos pulls stamp (Inr (xs @ a # ys)) errs s =
         generateReport user now repos pulls stamp (Inr (xs @ ys)) errs s"
proof -
  define st0 where "st0 = ingest user now repos pulls stamp errs s"
  have "map name (run_projects (fold map_activity xs st0)) = map repo_name repos"
    by (simp add: fold_map_activity_same st0_def ingest_names)
  then have "name ` set (run_projects (fold map_activity xs st0)) = repo_name ` set repos"
    by (metis list.set_map)
  then have "\<forall>p \<in> set (run_projects (fold map_activity xs st0)). \<not> name_matches (name p) a"
    using assms by (metis imageE imageI)
  then have "map_activity a (fold map_activity xs st0) = fold map_activity xs st0"
    by (rule map_activity_unmatched)
  then show ?thesis
    by (simp add: generateReport_Inr st0_def [symmetric])
qed

text \<open>
  Claim C1. After \<open>generateReport\<close> has correlated the activities that
  \<open>getUserActivity\<close> returned, whatever list that is, the projects
  are the listed repositories in listing order, and the array of project \<open>i\<close> holds, in
  the order fetched, exactly the activities whose \<open>repoName\<close> matches the name of
  project \<open>i\<close> and of no earlier project; a name matches when it equals \<open>repoName\<close> or
  the part of \<open>repoName\<close> after its last slash. An activity that matches no project is
  dropped: the run ends in the same state as without it, so it is in no project's array
  and changes no executive summary.
\<close>

theorem correlation_first_match:
  fixes user now repos pulls stamp acts errs s
  defines "st \<equiv> generateReport user now repos pulls stamp (Inr acts) errs s"
  shows "map name (projects (run_report st)) = map repo_name repos \<and>
         (\<forall>i<length repos.
            arrays (run_store st) (myActivities (projects (run_report st) ! i)) =
              filter (\<lambda>a. name_matches (repo_name (repos ! i)) a \<and>
                           (\<forall>j<i. \<not> name_matches (repo_name (repos ! j)) a)) acts) \<and>
         (name_matches n a \<longleftrightarrow>
            n = repoName a \<or> n = rev (takeWhile (\<lambda>x. x \<noteq> CHR ''/'') (rev (repoName a)))) \<and>
         ((\<forall>rp \<in> set repos. \<not> name_matches (repo_name rp) a) \<longrightarrow>
            (\<forall>i<length repos.
               a \<notin> set (arrays (run_store st) (myActivities (projects (run_report st) ! i)))) \<and>
            generateReport user now repos pulls stamp (Inr (xs @ a # ys)) errs s =
              generateReport user now repos pulls stamp (Inr (xs @ ys)) errs s \<and>
            getExecutiveSummary z now'
                (run_report (generateReport user now repos pulls stamp (Inr (xs @ a # ys)) errs s))
                (run_store (generateReport user now repos pulls stamp (Inr (xs @ a # ys)) errs s)) =
              getExecutiveSummary z now'
                (run_report (generateReport user now repos pulls stamp (Inr (xs @ ys)) errs s))
                (run_store (generateReport user now repos pulls stamp (Inr (xs @ ys)) errs s)))"
proof -
  have A: "map name (projects (run_report st)) = map repo_name repos"
    by (simp add: st_def generateReport_names)
  have B: "\<forall>i<length repos.
            arrays (run_store st) (myActivities (projects (run_report st) ! i)) =
              filter (\<lambda>a. name_matches (repo_name (repos ! i)) a \<and>
                           (\<forall>j<i. \<not> name_matches (repo_name (repos ! j)) a)) acts"
    by (simp add: st_def generateReport_arrays)
  have C: "name_matches n a \<longleftrightarrow>
            n = repoName a \<or> n = rev (takeWhile (\<lambda>x. x \<noteq> CHR ''/'') (rev (repoName a)))"
    by (simp add: name_matches_def pop_split)
  have D: "\<forall>i<length repos.
               a \<notin> set (arrays (run_store st) (myActivities (projects (run_report st) ! i)))"
    if "\<forall>rp \<in> set repos. \<not> name_matches (repo_name rp) a"
    using that B by simp
  have E: "generateReport user now repos pulls stamp (Inr (xs @ a # ys)) errs s =
              generateReport user now repos pulls stamp (Inr (xs @ ys)) errs s"
    if "\<forall>rp \<in> set repos. \<not> name_matches (repo_name rp) a"
    using that by (rule generateReport_drop)
  show ?thesis
    using A B C D E by simp
qed


lemma example_run_projects:
  "projects (run_report example_run) =
     [\<lparr>name = ''octo-repo'', description = ''No description available'',
       url = ''https://github.com/octo-org/octo-repo'', language = Some ''JavaScript'',
       lastPR = None, myActivities = 0\<rparr>,
      \<lparr>name = ''hello-world'', description = ''No description available'',
       url = ''https://github.com/octo-org/hello-world'', language = Some ''JavaScript'',
       lastPR = None, myActivities = 2\<rparr>]"
  by (simp add: example_run_def generateReport_projects ingest_def example_repos_def
      example_repo_def getRepoDetails_eq getLastPRForRepo_def addProject_def setTotalRepos_def
      new_GitHubReport_def empty_store_def)

theorem correlation_first_match_witness:
  "map name (projects (run_report example_run)) = [''octo-repo'', ''hello-world''] \<and>
   arrays (run_store example_run) (myActivities (projects (run_report example_run) ! 0)) =
     [example_activity ''pr_created'' 1710050000000 ''octo-org/octo-repo'',
      example_activity ''pr_reviewed'' 1710060000000 ''octo-repo''] \<and>
   arrays (run_store example_run) (myActivities (projects (run_report example_run) ! 1)) = [] \<and>
   example_activity ''pr_commented'' 1710070000000 ''nobody/unknown'' \<in> set example_activities \<and>
   \<not> name_matches ''octo-repo'' (example_activity ''pr_commented'' 1710070000000 ''nobody/unknown'') \<and>
   \<not> name_matches ''hello-world'' (example_activity ''pr_commented'' 1710070000000 ''nobody/unknown'')"
proof -
  note t = correlation_first_match [where user = "''octocat''" and now = example_now
      and repos = example_repos and pulls = "\<lambda>own rname. Inr []"
      and stamp = "\<lambda>i. ''2024-03-11T16:00:00.000Z''" and acts = example_activities
      and errs = "[]" and s = empty_store, folded example_run_def]
  have m: "name_matches ''octo-repo'' (example_activity ''pr_created'' 1710050000000 ''octo-org/octo-repo'')"
    "name_matches ''octo-repo'' (example_activity ''pr_reviewed'' 1710060000000 ''octo-repo'')"
    "\<not> name_matches ''octo-repo'' (example_activity ''pr_commented'' 1710070000000 ''nobody/unknown'')"
    "\<not> name_matches ''hello-world'' (example_activity ''pr_created'' 1710050000000 ''octo-org/octo-repo'')"
    "\<not> name_matches ''hello-world'' (example_activity ''pr_reviewed'' 1710060000000 ''octo-repo'')"
    "\<not> name_matches ''hello-world'' (example_activity ''pr_commented'' 1710070000000 ''nobody/unknown'')"
    by (simp_all add: name_matches_def pop_def example_activity_def)
  have len: "length example_repos = 2" and r0: "repo_name (example_repos ! 0) = ''octo-repo''"
    and r1: "repo_name (example_repos ! Suc 0) = ''hello-world''"
    by (simp_all add: example_repos_def example_repo_def)
  have A: "map name (projects (run_report example_run)) = map repo_name example_repos"
    using t by blast
  have B: "\<forall>i<length example_repos.
      arrays (run_store example_run) (myActivities (projects (run_report example_run) ! i)) =
        filter (\<lambda>a. name_matches (repo_name (example_repos ! i)) a \<and>
                     (\<forall>j<i. \<not> name_matches (repo_name (example_repos ! j)) a)) example_activities"
    using t by blast
  have B0: "arrays (run_store example_run) (myActivities (projects (run_report example_run) ! 0)) =
     [example_activity ''pr_created'' 1710050000000 ''octo-org/octo-repo'',
      example_activity ''pr_reviewed'' 1710060000000 ''octo-repo'']"
    using B [rule_format, of 0] by (simp add: len r0 m example_activities_def)
  have B1: "arrays (run_store example_run) (myActivities (projects (run_report example_run) ! 1)) = []"
    using B [rule_format, of 1] by (simp add: len r0 r1 m example_activities_def)
  show ?thesis
    using A B0 B1 m by (simp add: example_repos_def example_repo_def example_activities_def)
qed

section \<open>The count of repositories\<close>

text \<open>
  Claim C7. When the loop over the listed repositories has ended, and still at the end
  of \<open>generateReport\<close>, \<open>totalReposAnalyzed\<close> is the number of the report's projects,
  one for each listed repository. \<open>getRepoDetails\<close> returns a project for every
  repository, also when its detail step throws.
\<close>

theorem totalReposAnalyzed_projects:
  "totalReposAnalyzed (run_report (ingest user now repos pulls stamp errs s)) =
     length (projects (run_report (ingest user now repos pulls stamp errs s))) \<and>
   length (projects (run_report (ingest user now repos pulls stamp errs s))) = length repos \<and>
   totalReposAnalyzed (run_report (generateReport user now repos pulls stamp fetched errs s)) =
     length (projects (run_report (generateReport user now repos pulls stamp fetched errs s)))"
proof -
  have total: "totalReposAnalyzed (run_report (ingest user now repos pulls stamp errs s)) = length repos"
    by (simp add: ingest_def process_repos_report setTotalRepos_def)
  have "map name (projects (run_report (ingest user now repos pulls stamp errs s))) = map repo_name repos"
    using ingest_ok [of user now repos pulls stamp errs s] ingest_names [of user now repos pulls stamp errs s]
    by (simp add: run_ok_def)
  then have len: "length (projects (run_report (ingest user now repos pulls stamp errs s))) = length repos"
    by (metis length_map)
  show ?thesis
    using total len by (simp add: generateReport_same)
qed

theorem totalReposAnalyzed_projects_witness:
  "totalReposAnalyzed (run_report example_run) = 2 \<and>
   length (projects (run_report example_run)) = 2"
  using totalReposAnalyzed_projects [where user = "''octocat''" and now = example_now
      and repos = example_repos and pulls = "\<lambda>own rname. Inr []"
      and stamp = "\<lambda>i. ''2024-03-11T16:00:00.000Z''" and fetched = "Inr example_activities"
      and errs = "[]" and s = empty_store, folded example_run_def]
  by (simp add: example_run_projects)

section \<open>Errors of the detail step\<close>

lemma ingest_log:
  "run_log (ingest user now repos pulls stamp errs s) =
     errs @
     concat (map (\<lambda>(k, rp). case owner rp of
                     Missing msg \<Rightarrow>
                       [\<lparr>log_message = ''Failed to process repo: '' @ full_name rp,
                         log_context = Some msg, log_timestamp = stamp k\<rparr>]
                   | Login login \<Rightarrow> [])
               (enumerate 0 repos))"
  by (simp add: ingest_def process_repos_log)

lemma generateReport_log:
  "run_log (generateReport user now repos pulls stamp fetched errs s) =
     errs @
     concat (map (\<lambda>(k, rp). case owner rp of
                     Missing msg \<Rightarrow>
                       [\<lparr>log_message = ''Failed to process repo: '' @ full_name rp,
                         log_context = Some msg, log_timestamp = stamp k\<rparr>]
                   | Login login \<Rightarrow> [])
               (enumerate 0 repos)) @
     (case fetched of
        Inl msg \<Rightarrow> [\<lparr>log_message = ''Failed to fetch user activity'', log_context = Some msg,
                     log_timestamp = stamp (length repos)\<rparr>]
      | Inr acts \<Rightarrow> [])"
  by (cases fetched)
    (simp_all add: generateReport_Inr generateReport_Inl fold_map_activity_same ingest_log)

lemma generateReport_errors:
  "errors (run_report (generateReport user now repos pulls stamp fetched errs s)) = []"
  by (simp add: generateReport_same ingest_def process_repos_report
      setTotalRepos_def new_GitHubReport_def)

lemma generateReport_refs_allocated:
  "refs_allocated (run_store (generateReport user now repos pulls stamp fetched errs s))
     (projects (run_report (generateReport user now repos pulls stamp fetched errs s)))"
  using generateReport_ok [of user now repos pulls stamp fetched errs s]
  by (auto simp add: run_ok_def)

lemma generateReport_field:
  assumes "i < length repos"
  shows "f (projects (run_report (generateReport user now repos pulls stamp fetched errs s)) ! i) =
           map f (run_projects (ingest user now repos pulls stamp errs s)) ! i"
proof -
  have "length (run_projects (ingest user now repos pulls stamp errs s)) = length repos"
    using ingest_names [of user now repos pulls stamp errs s] by (metis length_map)
  then show ?thesis
    using assms by (simp add: generateReport_projects)
qed

lemma printSummary_count:
  "errs \<noteq> [] \<Longrightarrow>
     (CHR 0x0A # show_nat (length errs) @ '' error(s) occurred:'') \<in> set (printSummary errs)"
  by (simp add: printSummary_def del: show_nat.simps)

lemma printSummary_item:
  assumes "k < length errs"
  shows "(show_nat (k + 1) @ ''. '' @ log_message (errs ! k)) \<in> set (printSummary errs)"
proof -
  have "(k, errs ! k) \<in> set (enumerate 0 errs)"
    using assms by (simp add: in_set_enumerate_eq)
  then have "\<exists>x \<in> set (enumerate 0 errs).
      (show_nat (k + 1) @ ''. '' @ log_message (errs ! k)) \<in>
        set (case x of (index, e) \<Rightarrow>
               (show_nat (index + 1) @ ''. '' @ log_message e) #
               (case log_context e of None \<Rightarrow> []
                | Some c \<Rightarrow> if c = [] then [] else [''   Context: '' @ c]))"
    by (intro bexI [of _ "(k, errs ! k)"]) (simp_all del: show_nat.simps)
  then show ?thesis
    using assms by (auto simp add: printSummary_def simp del: show_nat.simps)
qed

lemma markdown_errors_of_report:
  assumes "getExecutiveSummary z now r s = Inr (summary, s')"
  shows "markdown_errors summary =
           (if errors r = [] then []
            else ''## Errors Encountered'' @ [CHR 0x0A, CHR 0x0A] @ show_nat (length (errors r)) @
                 '' error(s) occurred during report generation. Check the console output for details.'' @
                 [CHR 0x0A, CHR 0x0A])"
  using assms
  by (auto simp add: getExecutiveSummary_def markdown_errors_def Let_def
      split: sum.splits prod.splits simp del: show_nat.simps)


text \<open>
  What the run does when the detail step of a repository throws: the project of the
  repository is the minimal one, and the logger's list gets one entry for every such
  repository, after them one more when the fetch of the activities fails;
  \<open>logger.printSummary\<close> writes the number of entries and the message of each.
\<close>

lemma detail_failure_logged:
  fixes user now repos pulls stamp fetched errs s
  defines "st \<equiv> generateReport user now repos pulls stamp fetched errs s"
  shows "length (projects (run_report st)) = length repos \<and>
         (\<forall>i<length repos. \<forall>msg. owner (repos ! i) = Missing msg \<longrightarrow>
            name (projects (run_report st) ! i) = repo_name (repos ! i) \<and>
            description (projects (run_report st) ! i) =
              (case repo_description (repos ! i) of None \<Rightarrow> ''No description available''
               | Some t \<Rightarrow> if t = [] then ''No description available'' else t) \<and>
            url (projects (run_report st) ! i) = html_url (repos ! i) \<and>
            language (projects (run_report st) ! i) = repo_language (repos ! i) \<and>
            lastPR (projects (run_report st) ! i) = None) \<and>
         (run_log st \<noteq> [] \<longrightarrow>
            (CHR 0x0A # show_nat (length (run_log st)) @ '' error(s) occurred:'')
              \<in> set (printSummary (run_log st)) \<and>
            (\<forall>k<length (run_log st).
               (show_nat (k + 1) @ ''. '' @ log_message (run_log st ! k))
                 \<in> set (printSummary (run_log st))))"
proof -
  have len0: "length (run_projects (ingest user now repos pulls stamp errs s)) = length repos"
    using ingest_names [of user now repos pulls stamp errs s] by (metis length_map)
  have len: "length (projects (run_report st)) = length repos"
    by (simp add: st_def generateReport_projects len0)
  have minimal: "name (projects (run_report st) ! i) = repo_name (repos ! i) \<and>
            description (projects (run_report st) ! i) =
              (case repo_description (repos ! i) of None \<Rightarrow> ''No description available''
               | Some t \<Rightarrow> if t = [] then ''No description available'' else t) \<and>
            url (projects (run_report st) ! i) = html_url (repos ! i) \<and>
            language (projects (run_report st) ! i) = repo_language (repos ! i) \<and>
            lastPR (projects (run_report st) ! i) = None"
    if i: "i < length repos" and none: "owner (repos ! i) = Missing msg" for i msg
    using i none
    by (simp add: st_def generateReport_field ingest_def process_repos_names
        process_repos_description process_repos_url process_repos_language process_repos_lastPR)
  have console: "(CHR 0x0A # show_nat (length (run_log st)) @ '' error(s) occurred:'')
              \<in> set (printSummary (run_log st)) \<and>
            (\<forall>k<length (run_log st).
               (show_nat (k + 1) @ ''. '' @ log_message (run_log st ! k))
                 \<in> set (printSummary (run_log st)))"
    if "run_log st \<noteq> []"
    using that printSummary_count [of "run_log st"] printSummary_item [of _ "run_log st"]
    by blast
  show ?thesis
    using len minimal console by blast
qed

lemma example_run_log:
  "run_log example_run =
     [\<lparr>log_message = ''Failed to process repo: octo-org/hello-world'',
       log_context = Some example_message,
       log_timestamp = ''2024-03-11T16:00:00.000Z''\<rparr>]"
  by (simp add: example_run_def generateReport_log example_repos_def example_repo_def
      enumerate_simps)

lemma example_run_arrays:
  "arrays (run_store example_run) 0 =
     [example_activity ''pr_created'' 1710050000000 ''octo-org/octo-repo'',
      example_activity ''pr_reviewed'' 1710060000000 ''octo-repo''] \<and>
   arrays (run_store example_run) 2 = []"
proof -
  have m: "name_matches ''octo-repo'' (example_activity ''pr_created'' 1710050000000 ''octo-org/octo-repo'')"
    "name_matches ''octo-repo'' (example_activity ''pr_reviewed'' 1710060000000 ''octo-repo'')"
    "\<not> name_matches ''octo-repo'' (example_activity ''pr_commented'' 1710070000000 ''nobody/unknown'')"
    "\<not> name_matches ''hello-world'' (example_activity ''pr_commented'' 1710070000000 ''nobody/unknown'')"
    by (simp_all add: name_matches_def pop_def example_activity_def)
  have r: "repo_name (example_repos ! 0) = ''octo-repo''" "repo_name (example_repos ! Suc 0) = ''hello-world''"
    "0 < length example_repos" "Suc 0 < length example_repos"
    by (simp_all add: example_repos_def example_repo_def)
  have "arrays (run_store example_run) (myActivities (projects (run_report example_run) ! 0)) =
     [example_activity ''pr_created'' 1710050000000 ''octo-org/octo-repo'',
      example_activity ''pr_reviewed'' 1710060000000 ''octo-repo'']"
    unfolding example_run_def
    by (subst generateReport_arrays [OF r(3)]) (simp add: r m example_activities_def)
  moreover have "arrays (run_store example_run) (myActivities (projects (run_report example_run) ! Suc 0)) = []"
    unfolding example_run_def
    by (subst generateReport_arrays [OF r(4)]) (simp add: r m example_activities_def)
  ultimately show ?thesis
    by (simp add: example_run_projects)
qed

text \<open>
  Claim C4 at the run over the two example repositories, the second of which has no
  owner. Its detail step throws: the logger gets the entry with message, context and
  time stamp, the minimal project is added and the run goes on, and
  \<open>logger.printSummary\<close> writes the count and the message, as the claim says. But the
  entry does not reach the report: nothing calls \<open>addError\<close>, the report's own error
  list stays empty, the executive summary has no errors, and neither the markdown report
  nor the console report has its line about errors.
\<close>

theorem detail_failure_not_in_report:
  "owner (example_repos ! 1) = Missing example_message \<and>
   run_log example_run =
     [\<lparr>log_message = ''Failed to process repo: octo-org/hello-world'',
       log_context = Some example_message,
       log_timestamp = ''2024-03-11T16:00:00.000Z''\<rparr>] \<and>
   length (projects (run_report example_run)) = 2 \<and>
   name (projects (run_report example_run) ! 1) = ''hello-world'' \<and>
   lastPR (projects (run_report example_run) ! 1) = None \<and>
   (CHR 0x0A # ''1 error(s) occurred:'') \<in> set (printSummary (run_log example_run)) \<and>
   ''1. Failed to process repo: octo-org/hello-world'' \<in> set (printSummary (run_log example_run)) \<and>
   errors (run_report example_run) = [] \<and>
   map_sum id fst (getExecutiveSummary (fixed_zone 0) example_now (run_report example_run)
       (run_store example_run)) =
     Inr \<lparr>totalRepos = 2, activeRepos = 1, totalActivities = 2, createdPRs = 1, comments = 0,
           reviews = 1, hasErrors = False, errorCount = 0\<rparr> \<and>
   markdown_errors \<lparr>totalRepos = 2, activeRepos = 1, totalActivities = 2, createdPRs = 1,
       comments = 0, reviews = 1, hasErrors = False, errorCount = 0\<rparr> = [] \<and>
   console_errors \<lparr>totalRepos = 2, activeRepos = 1, totalActivities = 2, createdPRs = 1,
       comments = 0, reviews = 1, hasErrors = False, errorCount = 0\<rparr> = []"
proof -
  have own: "owner (example_repos ! 1) = Missing example_message"
    by (simp add: example_repos_def example_repo_def)
  have errs: "errors (run_report example_run) = []"
    by (simp add: example_run_def generateReport_errors)
  have total: "totalReposAnalyzed (run_report example_run) = 2"
    by (simp add: example_run_def generateReport_same ingest_def
        process_repos_report setTotalRepos_def) (simp add: example_repos_def)
  have alloc: "refs_allocated (run_store example_run) (projects (run_report example_run))"
    by (simp add: example_run_def generateReport_refs_allocated)
  have summary: "map_sum id fst (getExecutiveSummary (fixed_zone 0) example_now (run_report example_run)
       (run_store example_run)) =
     Inr \<lparr>totalRepos = 2, activeRepos = 1, totalActivities = 2, createdPRs = 1, comments = 0,
           reviews = 1, hasErrors = False, errorCount = 0\<rparr>"
    by (simp add: getExecutiveSummary_eq [OF alloc] errs total example_run_projects
        hasYesterdayActivity_value getYesterdayActivities_def example_run_arrays
        example_isFromYesterday)
      (simp add: example_activity_def)
  have c: "(CHR 0x0A # ''1 error(s) occurred:'') \<in> set (printSummary (run_log example_run))"
    using printSummary_count [of "run_log example_run"] by (simp add: example_run_log)
  have i: "''1. Failed to process repo: octo-org/hello-world'' \<in> set (printSummary (run_log example_run))"
    using printSummary_item [of 0 "run_log example_run"] by (simp add: example_run_log)
  show ?thesis
    using own errs summary c i
    by (simp add: example_run_log example_run_projects markdown_errors_def console_errors_def)
qed

end
